theory Spec2Isabelle
  imports Complex_Main
begin

section \<open>The anomaly detector of triggers.py\<close>

text \<open>
  The model covers \<^verbatim>\<open>WindowTrigger\<close> of \<^verbatim>\<open>triggers.py\<close> and the record
  \<^verbatim>\<open>MetricAnomaly\<close> of \<^verbatim>\<open>models.py\<close>.

  A Python \<^verbatim>\<open>float\<close> is an IEEE 754 binary64 number. It is modelled by the type \<open>float\<close>
  below: a real number, the two infinities, or not-a-number. Every arithmetic operation
  computes the exact real result and rounds it to the nearest binary64 number, ties to
  the even significand (\<open>rnd64\<close>). The sign of zero is not modelled (\<^verbatim>\<open>-0.0 == 0.0\<close> in
  Python, and no operation used here tells them apart).

  A \<^verbatim>\<open>datetime\<close> is opaque to the detector and is modelled as an integer (a count of
  microseconds since some epoch).
\<close>

subsection \<open>Binary64 numbers and rounding\<close>

text \<open>Rounding to the nearest integer, ties to the even neighbour.\<close>

definition round_half_even :: "real \<Rightarrow> int" where
  "round_half_even y =
     (let f = \<lfloor>y\<rfloor>; d = y - of_int f
      in if d < 1 / 2 then f
         else if 1 / 2 < d then f + 1
         else if even f then f else f + 1)"

datatype float = Finite real | PInf | NInf | NaN

text \<open>
  The binary64 numbers around \<open>x\<close> are the multiples of \<open>2 powi q\<close>, where \<open>q\<close> is the least
  exponent from \<open>-1074\<close> upwards with \<open>\<bar>x\<bar> < 2 powi (q + 53)\<close>: 53 significant bits, and
  the fixed spacing \<open>2 powi (-1074)\<close> of the subnormal range. \<open>quantum_from x q\<close> searches
  upwards from \<open>q\<close>.
\<close>

function quantum_from :: "real \<Rightarrow> int \<Rightarrow> int" where
  "quantum_from x q = (if \<bar>x\<bar> < 2 powi (q + 53) then q else quantum_from x (q + 1))"
  by pat_completeness auto
termination
proof (relation "measure (\<lambda>(x, q). nat (int (LEAST n. \<bar>x\<bar> < 2 ^ n) - q - 52))", goal_cases)
  case 1
  show ?case by simp
next
  case (2 x q)
  obtain n where n: "\<bar>x\<bar> < 2 ^ n" using real_arch_pow [of 2 "\<bar>x\<bar>"] by auto
  define N where "N = (LEAST n. \<bar>x\<bar> < 2 ^ n)"
  have N: "\<bar>x\<bar> < 2 ^ N" unfolding N_def using n by (rule LeastI)
  have "q + 53 < int N"
  proof (rule ccontr)
    assume "\<not> q + 53 < int N"
    then have "int N \<le> q + 53" by simp
    then have "(2::real) powi int N \<le> 2 powi (q + 53)" by (intro power_int_increasing) simp_all
    with N 2 show False by simp
  qed
  then show ?case by (simp add: N_def)
qed

definition quantum :: "real \<Rightarrow> int" where
  "quantum x = quantum_from x (- 1074)"

text \<open>The multiple of \<open>2 powi q\<close> nearest to \<open>x\<close>, ties to the even multiple.\<close>

definition round_to :: "int \<Rightarrow> real \<Rightarrow> real" where
  "round_to q x = of_int (round_half_even (x / 2 powi q)) * 2 powi q"

definition rnd :: "real \<Rightarrow> real" where
  "rnd x = round_to (quantum x) x"

text \<open>
  Rounding to binary64: a result whose rounded magnitude reaches \<open>2 ^ 1024\<close> overflows to
  the infinity of its sign.
\<close>

definition rnd64 :: "real \<Rightarrow> float" where
  "rnd64 x =
     (let y = round_to (quantum x) x
      in if 2 ^ 1024 \<le> \<bar>y\<bar> then (if 0 < x then PInf else NInf) else Finite y)"

fun fneg :: "float \<Rightarrow> float" where
  "fneg (Finite x) = Finite (- x)"
| "fneg PInf = NInf"
| "fneg NInf = PInf"
| "fneg NaN = NaN"

text \<open>\<^verbatim>\<open>a + b\<close> on floats.\<close>

fun fadd :: "float \<Rightarrow> float \<Rightarrow> float" where
  "fadd (Finite x) (Finite y) = rnd64 (x + y)"
| "fadd (Finite x) PInf = PInf"
| "fadd (Finite x) NInf = NInf"
| "fadd PInf (Finite y) = PInf"
| "fadd PInf PInf = PInf"
| "fadd PInf NInf = NaN"
| "fadd NInf (Finite y) = NInf"
| "fadd NInf NInf = NInf"
| "fadd NInf PInf = NaN"
| "fadd NaN b = NaN"
| "fadd (Finite x) NaN = NaN"
| "fadd PInf NaN = NaN"
| "fadd NInf NaN = NaN"

text \<open>\<^verbatim>\<open>a - b\<close> on floats.\<close>

definition fsub :: "float \<Rightarrow> float \<Rightarrow> float" where
  "fsub a b = fadd a (fneg b)"

text \<open>The product of positive infinity and the finite number \<open>x\<close>.\<close>

definition inf_times :: "real \<Rightarrow> float" where
  "inf_times x = (if x = 0 then NaN else if 0 < x then PInf else NInf)"

text \<open>\<^verbatim>\<open>a * b\<close> on floats.\<close>

fun fmul :: "float \<Rightarrow> float \<Rightarrow> float" where
  "fmul (Finite x) (Finite y) = rnd64 (x * y)"
| "fmul (Finite x) PInf = inf_times x"
| "fmul (Finite x) NInf = inf_times (- x)"
| "fmul PInf (Finite y) = inf_times y"
| "fmul NInf (Finite y) = inf_times (- y)"
| "fmul PInf PInf = PInf"
| "fmul PInf NInf = NInf"
| "fmul NInf PInf = NInf"
| "fmul NInf NInf = PInf"
| "fmul NaN b = NaN"
| "fmul (Finite x) NaN = NaN"
| "fmul PInf NaN = NaN"
| "fmul NInf NaN = NaN"

text \<open>\<^verbatim>\<open>a > b\<close> on floats: false as soon as one side is not-a-number.\<close>

fun fgt :: "float \<Rightarrow> float \<Rightarrow> bool" where
  "fgt (Finite x) (Finite y) = (y < x)"
| "fgt (Finite x) NInf = True"
| "fgt PInf (Finite y) = True"
| "fgt PInf NInf = True"
| "fgt a b = False"

text \<open>\<^verbatim>\<open>a >= b\<close> on floats.\<close>

fun fge :: "float \<Rightarrow> float \<Rightarrow> bool" where
  "fge (Finite x) (Finite y) = (y \<le> x)"
| "fge a NaN = False"
| "fge NaN b = False"
| "fge PInf b = True"
| "fge a NInf = True"
| "fge a b = False"

subsection \<open>Built-in operations\<close>

text \<open>
  The exceptions of the operations below. \<open>TypeError\<close> stands for the use of an object
  of the wrong kind; it occurs in the store-level model of the call only.
\<close>

datatype py_error = ZeroDivisionError | ValueError | OverflowError | TypeError

text \<open>
  \<^verbatim>\<open>sum(xs)\<close>: starts from 0 and adds the elements from left to right, rounding each
  addition. (The compensation term that CPython 3.12 added to \<^verbatim>\<open>sum\<close> for floats is not
  modelled.)
\<close>

definition py_sum :: "float list \<Rightarrow> float" where
  "py_sum xs = foldl fadd (Finite 0) xs"

text \<open>
  \<^verbatim>\<open>x / n\<close> for a float \<open>x\<close> and the length \<open>n\<close> of a list (an integer below \<open>2 ^ 53\<close>,
  which converts to a float exactly).
\<close>

fun py_div :: "float \<Rightarrow> nat \<Rightarrow> py_error + float" where
  "py_div a 0 = Inl ZeroDivisionError"
| "py_div (Finite x) n = Inr (rnd64 (x / real n))"
| "py_div a n = Inr a"

text \<open>
  \<^verbatim>\<open>x ** 2\<close>: the rounded square; a finite \<open>x\<close> whose square overflows raises
  \<^verbatim>\<open>OverflowError\<close>.
\<close>

fun py_pow2 :: "float \<Rightarrow> py_error + float" where
  "py_pow2 (Finite x) =
     (case rnd64 (x * x) of Finite y \<Rightarrow> Inr (Finite y) | _ \<Rightarrow> Inl OverflowError)"
| "py_pow2 PInf = Inr PInf"
| "py_pow2 NInf = Inr PInf"
| "py_pow2 NaN = Inr NaN"

text \<open>\<^verbatim>\<open>math.sqrt(x)\<close>: a negative argument raises \<^verbatim>\<open>ValueError\<close>.\<close>

fun math_sqrt :: "float \<Rightarrow> py_error + float" where
  "math_sqrt (Finite x) = (if x < 0 then Inl ValueError else Inr (rnd64 (sqrt x)))"
| "math_sqrt PInf = Inr PInf"
| "math_sqrt NInf = Inl ValueError"
| "math_sqrt NaN = Inr NaN"

text \<open>
  \<^verbatim>\<open>round(x, ndigits)\<close> for a float \<open>x\<close> and \<open>ndigits \<ge> 0\<close>: the decimal with \<open>ndigits\<close>
  digits nearest to \<open>x\<close> (ties to the even last digit), converted back to the nearest
  float. Infinities and not-a-number are returned as they are.
\<close>

fun py_round :: "float \<Rightarrow> nat \<Rightarrow> float" where
  "py_round (Finite x) ndigits =
     rnd64 (of_int (round_half_even (x * 10 ^ ndigits)) / 10 ^ ndigits)"
| "py_round a ndigits = a"

subsection \<open>Data model\<close>

type_synonym datetime = int

text \<open>\<^verbatim>\<open>WindowTrigger\<close>: the two attributes set by \<^verbatim>\<open>__init__\<close>.\<close>

record WindowTrigger =
  window_seconds :: int
  threshold_multiplier :: float

text \<open>\<^verbatim>\<open>MetricAnomaly\<close> (models.py), field by field.\<close>

record MetricAnomaly =
  metric_name :: string
  "value" :: float
  threshold :: float
  timestamp :: datetime
  window_seconds :: int

subsection \<open>WindowTrigger\<close>

text \<open>
  \<^verbatim>\<open>__init__\<close> (triggers.py, lines 38 to 40) stores its two arguments. It has no
  \<^verbatim>\<open>raise\<close> statement and calls nothing that raises, so every result is \<open>Inr\<close>.
\<close>

definition WindowTrigger_init :: "int \<Rightarrow> float \<Rightarrow> py_error + WindowTrigger" where
  "WindowTrigger_init ws tm =
     Inr \<lparr>WindowTrigger.window_seconds = ws, threshold_multiplier = tm\<rparr>"

text \<open>
  Line 49, \<^verbatim>\<open>sum((v - mean) ** 2 for v in values)\<close>: the generator yields one square at a
  time, and the first square that overflows ends the sum with its exception.
\<close>

fun sum_squares :: "float \<Rightarrow> float list \<Rightarrow> float \<Rightarrow> py_error + float" where
  "sum_squares mean [] acc = Inr acc"
| "sum_squares mean (v # vs) acc =
     (case py_pow2 (fsub v mean) of
        Inl e \<Rightarrow> Inl e
      | Inr sq \<Rightarrow> sum_squares mean vs (fadd acc sq))"

text \<open>
  Lines 46 to 51 of \<^verbatim>\<open>check\<close>: the locals \<^verbatim>\<open>mean\<close>, \<^verbatim>\<open>variance\<close>, \<^verbatim>\<open>std\<close> and
  \<^verbatim>\<open>threshold\<close>, returned in this order.
\<close>

definition check_stats ::
  "WindowTrigger \<Rightarrow> (datetime \<times> float) list \<Rightarrow> py_error + (float \<times> float \<times> float \<times> float)" where
  "check_stats self series =
     (let vals = map snd series;
          n = length vals
      in case py_div (py_sum vals) n of
           Inl e \<Rightarrow> Inl e
         | Inr mean \<Rightarrow>
             (case sum_squares mean vals (Finite 0) of
                Inl e \<Rightarrow> Inl e
              | Inr ssq \<Rightarrow>
                  (case py_div ssq n of
                     Inl e \<Rightarrow> Inl e
                   | Inr variance \<Rightarrow>
                       (case math_sqrt variance of
                          Inl e \<Rightarrow> Inl e
                        | Inr std \<Rightarrow>
                            Inr (mean, variance, std,
                                 fadd mean (fmul (threshold_multiplier self) std))))))"

text \<open>
  Lines 53 to 63: the loop over \<^verbatim>\<open>series\<close>, appending to the local list \<^verbatim>\<open>anomalies\<close>.
\<close>

fun check_loop ::
  "WindowTrigger \<Rightarrow> string \<Rightarrow> float \<Rightarrow> (datetime \<times> float) list \<Rightarrow>
   MetricAnomaly list \<Rightarrow> MetricAnomaly list" where
  "check_loop self name thr [] anomalies = anomalies"
| "check_loop self name thr ((ts, val) # rest) anomalies =
     check_loop self name thr rest
       (if fgt val thr
        then anomalies @
          [\<lparr>metric_name = name,
            value = py_round val 4,
            threshold = py_round thr 4,
            timestamp = ts,
            window_seconds = WindowTrigger.window_seconds self\<rparr>]
        else anomalies)"

text \<open>\<^verbatim>\<open>check\<close> (lines 42 to 63), as a function of the values of its arguments.\<close>

definition check ::
  "WindowTrigger \<Rightarrow> string \<Rightarrow> (datetime \<times> float) list \<Rightarrow> py_error + MetricAnomaly list" where
  "check self name series =
     (if length series < 2 then Inr []
      else case check_stats self series of
             Inl e \<Rightarrow> Inl e
           | Inr (mean, variance, std, thr) \<Rightarrow> Inr (check_loop self name thr series []))"

text \<open>
  The local \<^verbatim>\<open>threshold\<close> of a call (not-a-number when the statistics raise).
\<close>

definition check_threshold :: "WindowTrigger \<Rightarrow> (datetime \<times> float) list \<Rightarrow> float" where
  "check_threshold self series =
     (case check_stats self series of Inl e \<Rightarrow> NaN | Inr (mean, variance, std, thr) \<Rightarrow> thr)"

subsection \<open>The call on a store of mutable objects\<close>

text \<open>
  \<^verbatim>\<open>check\<close> receives references. The store is a list of objects, an address is an index
  into it, and a new object is put at the end. The objects that \<^verbatim>\<open>check\<close> touches are the
  detector, the series (a list; its tuples, floats and timestamps are immutable values),
  the list \<^verbatim>\<open>values\<close> built on line 46 and the list \<^verbatim>\<open>anomalies\<close> built on line 53 (or
  the empty list of line 44).
\<close>

type_synonym addr = nat

datatype obj =
    TriggerObj WindowTrigger
  | SeriesObj "(datetime \<times> float) list"
  | FloatListObj "float list"
  | AnomalyListObj "MetricAnomaly list"

type_synonym heap = "obj list"

definition alloc :: "heap \<Rightarrow> obj \<Rightarrow> addr \<times> heap" where
  "alloc h ob = (length h, h @ [ob])"

definition trigger_at :: "heap \<Rightarrow> addr \<Rightarrow> WindowTrigger option" where
  "trigger_at h a =
     (if a < length h then (case h ! a of TriggerObj cfg \<Rightarrow> Some cfg | _ \<Rightarrow> None) else None)"

definition series_at :: "heap \<Rightarrow> addr \<Rightarrow> (datetime \<times> float) list option" where
  "series_at h a =
     (if a < length h then (case h ! a of SeriesObj s \<Rightarrow> Some s | _ \<Rightarrow> None) else None)"

definition anomalies_at :: "heap \<Rightarrow> addr \<Rightarrow> MetricAnomaly list option" where
  "anomalies_at h a =
     (if a < length h then (case h ! a of AnomalyListObj rs \<Rightarrow> Some rs | _ \<Rightarrow> None) else None)"

text \<open>\<^verbatim>\<open>anomalies.append(r)\<close>: the only write of \<^verbatim>\<open>check\<close> to an existing object.\<close>

definition list_append :: "heap \<Rightarrow> addr \<Rightarrow> MetricAnomaly \<Rightarrow> heap option" where
  "list_append h a r =
     (case anomalies_at h a of
        None \<Rightarrow> None
      | Some rs \<Rightarrow> Some (h[a := AnomalyListObj (rs @ [r])]))"

text \<open>
  Lines 54 to 62 on the store. The list iterator reads the list object at \<^verbatim>\<open>series\<close>
  afresh in every round (position \<open>i\<close>), so a loop that appended to the list it iterates
  would not end: the loop takes fuel, and \<open>None\<close> is a loop that has not returned when
  the fuel is used up. \<^verbatim>\<open>self.window_seconds\<close> is read from the store when a record is
  built.
\<close>

fun heap_loop ::
  "nat \<Rightarrow> heap \<Rightarrow> addr \<Rightarrow> string \<Rightarrow> float \<Rightarrow> addr \<Rightarrow> addr \<Rightarrow> nat \<Rightarrow>
   ((py_error + unit) \<times> heap) option" where
  "heap_loop 0 h self name thr series anomalies i = None"
| "heap_loop (Suc fuel) h self name thr series anomalies i =
     (case series_at h series of
        None \<Rightarrow> Some (Inl TypeError, h)
      | Some s \<Rightarrow>
          if i < length s then
            (if fgt (snd (s ! i)) thr then
               (case trigger_at h self of
                  None \<Rightarrow> Some (Inl TypeError, h)
                | Some cfg \<Rightarrow>
                    (case list_append h anomalies
                            \<lparr>metric_name = name,
                             value = py_round (snd (s ! i)) 4,
                             threshold = py_round thr 4,
                             timestamp = fst (s ! i),
                             window_seconds = WindowTrigger.window_seconds cfg\<rparr> of
                       None \<Rightarrow> Some (Inl TypeError, h)
                     | Some h' \<Rightarrow> heap_loop fuel h' self name thr series anomalies (i + 1)))
             else heap_loop fuel h self name thr series anomalies (i + 1))
          else Some (Inr (), h))"

text \<open>
  \<^verbatim>\<open>check\<close> on the store: it returns the address of the result list (or the exception)
  and the store it leaves. Lines 46 to 51 work on immutable floats; their only effect on
  the store is the new list \<^verbatim>\<open>values\<close>.
\<close>

definition check_heap ::
  "nat \<Rightarrow> heap \<Rightarrow> addr \<Rightarrow> string \<Rightarrow> addr \<Rightarrow> ((py_error + addr) \<times> heap) option" where
  "check_heap fuel h self name series =
     (case series_at h series of
        None \<Rightarrow> Some (Inl TypeError, h)
      | Some s \<Rightarrow>
          if length s < 2 then
            (let (result, h1) = alloc h (AnomalyListObj []) in Some (Inr result, h1))
          else
            (let (vals, h1) = alloc h (FloatListObj (map snd s)) in
             case trigger_at h1 self of
               None \<Rightarrow> Some (Inl TypeError, h1)
             | Some cfg \<Rightarrow>
                 (case check_stats cfg s of
                    Inl e \<Rightarrow> Some (Inl e, h1)
                  | Inr (mean, variance, std, thr) \<Rightarrow>
                      (let (anomalies, h2) = alloc h1 (AnomalyListObj []) in
                       case heap_loop fuel h2 self name thr series anomalies 0 of
                         None \<Rightarrow> None
                       | Some (Inl e, h3) \<Rightarrow> Some (Inl e, h3)
                       | Some (Inr u, h3) \<Rightarrow> Some (Inr anomalies, h3)))))"

text \<open>What the caller holds after the call: the exception, or the list at the address.\<close>

definition returned :: "heap \<Rightarrow> py_error + addr \<Rightarrow> py_error + MetricAnomaly list" where
  "returned h out =
     (case out of
        Inl e \<Rightarrow> Inl e
      | Inr a \<Rightarrow> (case anomalies_at h a of Some rs \<Rightarrow> Inr rs | None \<Rightarrow> Inl TypeError))"

subsection \<open>The detector as the specification words it\<close>




text \<open>
  The same three formulas with every operation rounded to binary64 and no exception:
  division by a positive count, the square as a product, the square root of a
  non-negative number.
\<close>

fun fdivn :: "float \<Rightarrow> nat \<Rightarrow> float" where
  "fdivn (Finite x) n = rnd64 (x / real n)"
| "fdivn a n = a"

fun fsqrt :: "float \<Rightarrow> float" where
  "fsqrt (Finite x) = rnd64 (sqrt x)"
| "fsqrt PInf = PInf"
| "fsqrt NInf = NaN"
| "fsqrt NaN = NaN"

definition spec_mean :: "float list \<Rightarrow> float" where
  "spec_mean vs = fdivn (foldl fadd (Finite 0) vs) (length vs)"



text \<open>
  The record emitted for a flagged point \<open>p = (timestamp, value)\<close> under the threshold
  \<open>thr\<close>.
\<close>

definition anomaly_record ::
  "WindowTrigger \<Rightarrow> string \<Rightarrow> float \<Rightarrow> datetime \<times> float \<Rightarrow> MetricAnomaly" where
  "anomaly_record self name thr p =
     \<lparr>metric_name = name,
      value = py_round (snd p) 4,
      threshold = py_round thr 4,
      timestamp = fst p,
      window_seconds = WindowTrigger.window_seconds self\<rparr>"

text \<open>
  \<open>b\<close> is \<open>a\<close> rounded to \<open>nd\<close> decimal digits: for a finite \<open>a\<close> there is an integer \<open>k\<close>
  such that \<open>k / 10 ^ nd\<close> lies within half a unit of the last digit of \<open>a\<close>, with an even
  \<open>k\<close> when \<open>a\<close> lies exactly half way, and \<open>b\<close> is the float nearest to \<open>k / 10 ^ nd\<close>.
  Such a \<open>k\<close> is one of the two integers next to \<open>a * 10 ^ nd\<close>, which are the candidates
  of the definition; an infinity or a not-a-number is kept.
\<close>

definition rounded_to_decimals :: "nat \<Rightarrow> float \<Rightarrow> float \<Rightarrow> bool" where
  "rounded_to_decimals nd a b =
     (case a of
        Finite x \<Rightarrow>
          (\<exists>k \<in> {\<lfloor>x * 10 ^ nd\<rfloor>, \<lfloor>x * 10 ^ nd\<rfloor> + 1}.
             \<bar>of_int k - x * 10 ^ nd\<bar> \<le> 1 / 2 \<and>
             (\<bar>of_int k - x * 10 ^ nd\<bar> = 1 / 2 \<longrightarrow> even k) \<and>
             b = rnd64 (of_int k / 10 ^ nd))
      | _ \<Rightarrow> b = a)"

text \<open>A float that is not negative: a non-negative number, infinity or not-a-number.\<close>

fun fnonneg :: "float \<Rightarrow> bool" where
  "fnonneg (Finite x) = (0 \<le> x)"
| "fnonneg PInf = True"
| "fnonneg NaN = True"
| "fnonneg NInf = False"

text \<open>
  The configuration built by \<^verbatim>\<open>detect_anomalies\<close> (line 67), and two other valid ones
  with smaller multipliers.
\<close>

abbreviation default_trigger :: WindowTrigger where
  "default_trigger \<equiv>
     \<lparr>WindowTrigger.window_seconds = 300, threshold_multiplier = Finite (5 / 2)\<rparr>"

abbreviation sensitive_trigger :: WindowTrigger where
  "sensitive_trigger \<equiv>
     \<lparr>WindowTrigger.window_seconds = 300, threshold_multiplier = Finite (1 / 2)\<rparr>"

abbreviation quarter_trigger :: WindowTrigger where
  "quarter_trigger \<equiv>
     \<lparr>WindowTrigger.window_seconds = 300, threshold_multiplier = Finite (1 / 4)\<rparr>"

section \<open>Supporting facts\<close>

subsection \<open>The exponent search\<close>

declare quantum_from.simps [simp del]

lemma pow2_less_D: "(2::real) powi a < 2 powi b \<Longrightarrow> a < b"
proof (rule ccontr)
  assume lt: "(2::real) powi a < 2 powi b" and "\<not> a < b"
  then have "b \<le> a" by simp
  then have "(2::real) powi b \<le> 2 powi a" by (intro power_int_increasing) simp_all
  with lt show False by simp
qed

lemma pow2_le_D: "(2::real) powi a \<le> 2 powi b \<Longrightarrow> a \<le> b"
proof (rule ccontr)
  assume le: "(2::real) powi a \<le> 2 powi b" and "\<not> a \<le> b"
  then have "b < a" by simp
  then have "(2::real) powi b < 2 powi a" by (intro power_int_strict_increasing) simp_all
  with le show False by simp
qed

lemma quantum_from_eqI:
  "q0 \<le> q \<Longrightarrow> \<bar>x\<bar> < 2 powi (q + 53) \<Longrightarrow> q = q0 \<or> 2 powi (q + 52) \<le> \<bar>x\<bar> \<Longrightarrow>
   quantum_from x q0 = q"
proof (induction x q0 rule: quantum_from.induct)
  case (1 x q0)
  show ?case
  proof (cases "\<bar>x\<bar> < 2 powi (q0 + 53)")
    case True
    have "q = q0"
    proof (rule ccontr)
      assume ne: "q \<noteq> q0"
      with 1(4) have "2 powi (q + 52) \<le> \<bar>x\<bar>" by simp
      with True have "(2::real) powi (q + 52) < 2 powi (q0 + 53)" by simp
      then have "q + 52 < q0 + 53" by (rule pow2_less_D)
      with 1(2) ne show False by simp
    qed
    with True show ?thesis by (simp add: quantum_from.simps [of x q0])
  next
    case False
    with 1(3) have "q \<noteq> q0" by auto
    with 1(2) have le: "q0 + 1 \<le> q" by simp
    have "quantum_from x (q0 + 1) = q"
      using 1(1) [OF False le 1(3)] 1(4) \<open>q \<noteq> q0\<close> by simp
    with False show ?thesis by (simp add: quantum_from.simps [of x q0])
  qed
qed

lemma quantum_from_props:
  "q0 \<le> quantum_from x q0 \<and> \<bar>x\<bar> < 2 powi (quantum_from x q0 + 53) \<and>
   (quantum_from x q0 = q0 \<or> 2 powi (quantum_from x q0 + 52) \<le> \<bar>x\<bar>)"
proof (induction x q0 rule: quantum_from.induct)
  case (1 x q0)
  show ?case
  proof (cases "\<bar>x\<bar> < 2 powi (q0 + 53)")
    case True
    then show ?thesis by (simp add: quantum_from.simps [of x q0])
  next
    case False
    have eq: "quantum_from x q0 = quantum_from x (q0 + 1)"
      using False by (simp add: quantum_from.simps [of x q0])
    from 1 [OF False] False show ?thesis
      unfolding eq by (auto simp: add.commute)
  qed
qed

lemma quantum_eqI:
  "- 1074 \<le> q \<Longrightarrow> \<bar>x\<bar> < 2 powi (q + 53) \<Longrightarrow> q = - 1074 \<or> 2 powi (q + 52) \<le> \<bar>x\<bar> \<Longrightarrow>
   quantum x = q"
  unfolding quantum_def by (rule quantum_from_eqI)

lemma quantum_ge: "- 1074 \<le> quantum x"
  and quantum_upper: "\<bar>x\<bar> < 2 powi (quantum x + 53)"
  and quantum_lower: "quantum x = - 1074 \<or> 2 powi (quantum x + 52) \<le> \<bar>x\<bar>"
  using quantum_from_props [of "- 1074" x] by (simp_all add: quantum_def)

lemma quantum_mono: "\<bar>x\<bar> \<le> \<bar>y\<bar> \<Longrightarrow> quantum x \<le> quantum y"
proof (rule ccontr)
  assume xy: "\<bar>x\<bar> \<le> \<bar>y\<bar>" and "\<not> quantum x \<le> quantum y"
  then have lt: "quantum y < quantum x" by simp
  with quantum_ge [of y] have "quantum x \<noteq> - 1074" by simp
  with quantum_lower [of x] have "2 powi (quantum x + 52) \<le> \<bar>x\<bar>" by simp
  with xy quantum_upper [of y] have "(2::real) powi (quantum x + 52) < 2 powi (quantum y + 53)"
    by simp
  then have "quantum x + 52 < quantum y + 53" by (rule pow2_less_D)
  with lt show False by simp
qed

lemma quantum_neg [simp]: "quantum (- x) = quantum x"
  by (rule quantum_eqI) (use quantum_ge quantum_upper quantum_lower in auto)

subsection \<open>Rounding to a fixed spacing\<close>

lemma round_half_even_mono: "x \<le> y \<Longrightarrow> round_half_even x \<le> round_half_even y"
proof -
  assume xy: "x \<le> y"
  have fl: "\<lfloor>x\<rfloor> \<le> \<lfloor>y\<rfloor>" using xy by (rule floor_mono)
  show ?thesis
  proof (cases "\<lfloor>x\<rfloor> = \<lfloor>y\<rfloor>")
    case True
    then show ?thesis using xy by (auto simp: round_half_even_def Let_def)
  next
    case False
    then have "\<lfloor>x\<rfloor> + 1 \<le> \<lfloor>y\<rfloor>" using fl by simp
    moreover have "round_half_even x \<le> \<lfloor>x\<rfloor> + 1"
      by (auto simp: round_half_even_def Let_def)
    moreover have "\<lfloor>y\<rfloor> \<le> round_half_even y"
      by (auto simp: round_half_even_def Let_def)
    ultimately show ?thesis by linarith
  qed
qed

lemma round_half_even_of_int [simp]: "round_half_even (of_int k) = k"
  by (simp add: round_half_even_def)

lemma round_half_even_close: "\<bar>of_int (round_half_even y) - y\<bar> \<le> 1 / 2"
  by (auto simp: round_half_even_def Let_def)

lemma round_half_even_tie: "\<bar>of_int (round_half_even y) - y\<bar> = 1 / 2 \<Longrightarrow> even (round_half_even y)"
  by (auto simp: round_half_even_def Let_def split: if_splits)

lemma round_half_even_zero [simp]: "round_half_even 0 = 0"
  using round_half_even_of_int [of 0] by simp

lemma round_to_mono: "x \<le> y \<Longrightarrow> round_to q x \<le> round_to q y"
proof -
  assume "x \<le> y"
  then have "x / 2 powi q \<le> y / 2 powi q" by (intro divide_right_mono) simp_all
  then have "round_half_even (x / 2 powi q) \<le> round_half_even (y / 2 powi q)"
    by (rule round_half_even_mono)
  then have "(of_int (round_half_even (x / 2 powi q)) :: real)
      \<le> of_int (round_half_even (y / 2 powi q))" by simp
  then show ?thesis unfolding round_to_def by (intro mult_right_mono) simp_all
qed

lemma round_to_multiple: "round_to q (of_int k * 2 powi q) = of_int k * 2 powi q"
  by (simp add: round_to_def)

lemma pow2_multiple: "q \<le> a \<Longrightarrow> (2::real) powi a = of_int (2 ^ nat (a - q)) * 2 powi q"
proof -
  assume "q \<le> a"
  then have "(2::real) powi a = 2 powi (int (nat (a - q)) + q)" by simp
  also have "\<dots> = 2 powi int (nat (a - q)) * 2 powi q" by (subst power_int_add) simp_all
  also have "(2::real) powi int (nat (a - q)) = 2 ^ nat (a - q)" by (rule power_int_of_nat)
  also have "(2::real) ^ nat (a - q) = of_int (2 ^ nat (a - q))" by simp
  finally show ?thesis .
qed

lemma round_to_pow2: "q \<le> a \<Longrightarrow> round_to q (2 powi a) = 2 powi a"
  using round_to_multiple [of q "2 ^ nat (a - q)"] pow2_multiple [of q a] by simp

lemma round_to_neg_pow2: "q \<le> a \<Longrightarrow> round_to q (- (2 powi a)) = - (2 powi a)"
  using round_to_multiple [of q "- (2 ^ nat (a - q))"] pow2_multiple [of q a] by simp

lemma round_to_zero [simp]: "round_to q 0 = 0"
  by (simp add: round_to_def)

subsection \<open>Rounding is monotone, and exact on binary64 numbers\<close>

lemma rnd_nonneg: "0 \<le> x \<Longrightarrow> 0 \<le> rnd x"
  unfolding rnd_def using round_to_mono [of 0 x "quantum x"] by simp

lemma rnd_nonpos: "x \<le> 0 \<Longrightarrow> rnd x \<le> 0"
  unfolding rnd_def using round_to_mono [of x 0 "quantum x"] by simp

lemma rnd_mono_pos:
  assumes "0 \<le> x" "x \<le> y"
  shows "rnd x \<le> rnd y"
proof -
  have q: "quantum x \<le> quantum y" using assms by (intro quantum_mono) simp
  show ?thesis
  proof (cases "quantum x = quantum y")
    case True
    then show ?thesis unfolding rnd_def using round_to_mono [OF assms(2)] by simp
  next
    case False
    with q have lt: "quantum x < quantum y" by simp
    with quantum_ge [of x] have "quantum y \<noteq> - 1074" by simp
    with quantum_lower [of y] assms have lo: "2 powi (quantum y + 52) \<le> y" by simp
    have up: "x \<le> 2 powi (quantum x + 53)" using quantum_upper [of x] assms by simp
    have "rnd x \<le> round_to (quantum x) (2 powi (quantum x + 53))"
      unfolding rnd_def by (rule round_to_mono [OF up])
    also have "\<dots> = 2 powi (quantum x + 53)" by (rule round_to_pow2) simp
    also have "\<dots> \<le> 2 powi (quantum y + 52)"
      using lt by (intro power_int_increasing) simp_all
    also have "\<dots> = round_to (quantum y) (2 powi (quantum y + 52))"
      by (rule round_to_pow2 [symmetric]) simp
    also have "\<dots> \<le> rnd y" unfolding rnd_def by (rule round_to_mono [OF lo])
    finally show ?thesis .
  qed
qed

lemma rnd_mono_neg:
  assumes "y \<le> 0" "x \<le> y"
  shows "rnd x \<le> rnd y"
proof -
  have q: "quantum y \<le> quantum x" using assms by (intro quantum_mono) simp
  show ?thesis
  proof (cases "quantum x = quantum y")
    case True
    then show ?thesis unfolding rnd_def using round_to_mono [OF assms(2)] by simp
  next
    case False
    with q have lt: "quantum y < quantum x" by simp
    with quantum_ge [of y] have "quantum x \<noteq> - 1074" by simp
    with quantum_lower [of x] assms have lo: "x \<le> - (2 powi (quantum x + 52))" by simp
    have up: "- (2 powi (quantum y + 53)) \<le> y" using quantum_upper [of y] assms by simp
    have "rnd x \<le> round_to (quantum x) (- (2 powi (quantum x + 52)))"
      unfolding rnd_def by (rule round_to_mono [OF lo])
    also have "\<dots> = - (2 powi (quantum x + 52))" by (rule round_to_neg_pow2) simp
    also have "\<dots> \<le> - (2 powi (quantum y + 53))"
      using lt by (simp add: power_int_increasing)
    also have "\<dots> = round_to (quantum y) (- (2 powi (quantum y + 53)))"
      by (rule round_to_neg_pow2 [symmetric]) simp
    also have "\<dots> \<le> rnd y" unfolding rnd_def by (rule round_to_mono [OF up])
    finally show ?thesis .
  qed
qed

lemma rnd_mono: "x \<le> y \<Longrightarrow> rnd x \<le> rnd y"
proof -
  assume xy: "x \<le> y"
  consider "0 \<le> x" | "y \<le> 0" | "x \<le> 0" "0 \<le> y" by linarith
  then show ?thesis
  proof cases
    case 1
    then show ?thesis using xy by (rule rnd_mono_pos)
  next
    case 2
    then show ?thesis using xy by (rule rnd_mono_neg)
  next
    case 3
    then show ?thesis using rnd_nonpos [of x] rnd_nonneg [of y] by simp
  qed
qed

lemma rnd64_rnd:
  "rnd64 x = (if 2 ^ 1024 \<le> \<bar>rnd x\<bar> then (if 0 < x then PInf else NInf) else Finite (rnd x))"
  by (simp add: rnd64_def rnd_def Let_def)

lemma rnd_exact:
  assumes "\<bar>m\<bar> < 2 ^ 53" and "- 1074 \<le> e"
  shows "rnd (of_int m * 2 powi e) = of_int m * 2 powi e"
proof -
  let ?x = "of_int m * (2::real) powi e"
  let ?q = "quantum ?x"
  have "?q \<le> e"
  proof (cases "?q = - 1074")
    case True
    with assms(2) show ?thesis by simp
  next
    case False
    with quantum_lower [of ?x] have "2 powi (?q + 52) \<le> \<bar>?x\<bar>" by simp
    also have "\<bar>?x\<bar> = \<bar>of_int m\<bar> * 2 powi e" by (simp add: abs_mult)
    also have "\<dots> < 2 ^ 53 * 2 powi e"
    proof (rule mult_strict_right_mono)
      have "(of_int \<bar>m\<bar> :: real) < of_int (2 ^ 53)" using assms(1) by (simp only: of_int_less_iff)
      then show "\<bar>of_int m :: real\<bar> < 2 ^ 53" by simp
    qed simp
    also have "\<dots> = 2 powi (e + 53)" by (simp add: power_int_add)
    finally have "?q + 52 < e + 53" by (rule pow2_less_D)
    then show ?thesis by simp
  qed
  then have "(2::real) powi e = of_int (2 ^ nat (e - ?q)) * 2 powi ?q" by (rule pow2_multiple)
  then have "?x = of_int m * (of_int (2 ^ nat (e - ?q)) * 2 powi ?q)" by (rule arg_cong)
  also have "\<dots> = of_int (m * 2 ^ nat (e - ?q)) * 2 powi ?q"
    by (simp only: of_int_mult mult.assoc)
  finally have x: "?x = of_int (m * 2 ^ nat (e - ?q)) * 2 powi ?q" .
  have "round_to ?q ?x = round_to ?q (of_int (m * 2 ^ nat (e - ?q)) * 2 powi ?q)"
    using x by (rule arg_cong)
  also have "\<dots> = of_int (m * 2 ^ nat (e - ?q)) * 2 powi ?q" by (rule round_to_multiple)
  also have "\<dots> = ?x" using x by (rule sym)
  finally show ?thesis unfolding rnd_def .
qed

subsection \<open>Rounding to a float\<close>

lemma rnd64_not_NaN [simp]: "rnd64 x \<noteq> NaN"
  by (simp add: rnd64_rnd)

lemma rnd64_mono: "x \<le> y \<Longrightarrow> fge (rnd64 y) (rnd64 x)"
proof -
  assume xy: "x \<le> y"
  have m: "rnd x \<le> rnd y" using xy by (rule rnd_mono)
  have px: "0 < x \<Longrightarrow> 0 \<le> rnd x" using rnd_nonneg [of x] by simp
  have py: "0 < y \<Longrightarrow> 0 \<le> rnd y" using rnd_nonneg [of y] by simp
  have nx: "\<not> 0 < x \<Longrightarrow> rnd x \<le> 0" using rnd_nonpos [of x] by simp
  have ny: "\<not> 0 < y \<Longrightarrow> rnd y \<le> 0" using rnd_nonpos [of y] by simp
  show ?thesis
    using xy m px py nx ny by (auto simp: rnd64_rnd)
qed

subsection \<open>Numbers that need no rounding\<close>

lemma rnd64_exact:
  assumes "\<bar>m\<bar> < 2 ^ 53" and "- 1074 \<le> e" and "e \<le> 970"
  shows "rnd64 (of_int m * 2 powi e) = Finite (of_int m * 2 powi e)"
proof -
  let ?x = "of_int m * (2::real) powi e"
  have r: "rnd ?x = ?x" using assms(1,2) by (rule rnd_exact)
  have "\<bar>?x\<bar> = \<bar>of_int m\<bar> * 2 powi e" by (simp add: abs_mult)
  also have "\<dots> \<le> 2 ^ 53 * 2 powi e"
  proof (rule mult_right_mono)
    have "(of_int \<bar>m\<bar> :: real) \<le> of_int (2 ^ 53)" using assms(1) by (simp only: of_int_le_iff)
    then show "\<bar>of_int m :: real\<bar> \<le> 2 ^ 53" by simp
  qed simp
  also have "\<dots> = 2 powi (e + 53)" by (simp add: power_int_add)
  also have "\<dots> \<le> 2 powi 1023" using assms(3) by (intro power_int_increasing) simp_all
  also have "\<dots> < 2 ^ 1024" by simp
  finally show ?thesis by (simp add: rnd64_rnd r)
qed

lemma rnd64_int: "\<bar>k\<bar> < 2 ^ 53 \<Longrightarrow> rnd64 (of_int k) = Finite (of_int k)"
  using rnd64_exact [of k 0] by simp

lemma rnd64_dyadic:
  "\<bar>k\<bar> < 2 ^ 53 \<Longrightarrow> j \<le> 1074 \<Longrightarrow> rnd64 (of_int k / 2 ^ j) = Finite (of_int k / 2 ^ j)"
  using rnd64_exact [of k "- int j"] by (simp add: power_int_minus field_simps)

lemma rnd64_zero [simp]: "rnd64 0 = Finite 0"
  using rnd64_int [of 0] by simp

lemma rnd64_one [simp]: "rnd64 1 = Finite 1"
  using rnd64_int [of 1] by simp

lemma rnd64_numeral [simp]:
  "(numeral n :: int) < 2 ^ 53 \<Longrightarrow> rnd64 (numeral n) = Finite (numeral n)"
  using rnd64_int [of "numeral n"] by simp

lemma rnd64_neg_numeral [simp]:
  "(numeral n :: int) < 2 ^ 53 \<Longrightarrow> rnd64 (- numeral n) = Finite (- numeral n)"
  using rnd64_int [of "- numeral n"] by simp

subsection \<open>The loop and the result\<close>

text \<open>The loop appends, in order, one record for each point above the threshold.\<close>

lemma check_loop_filter:
  "check_loop self name thr series acc =
     acc @ map (anomaly_record self name thr) (filter (\<lambda>p. fgt (snd p) thr) series)"
  by (induction self name thr series acc rule: check_loop.induct)
     (simp_all add: anomaly_record_def)

lemma check_cases:
  assumes "check self name series = Inr rs"
  shows "rs = map (anomaly_record self name (check_threshold self series))
            (filter (\<lambda>p. 2 \<le> length series \<and> fgt (snd p) (check_threshold self series)) series)"
proof (cases "2 \<le> length series")
  case True
  then have "\<not> length series < 2" by simp
  with assms True show ?thesis
    by (auto simp: check_def check_threshold_def check_loop_filter split: sum.splits)
next
  case False
  then show ?thesis using assms by (simp add: check_def)
qed

subsection \<open>Rounding twice, and rounding to decimals\<close>

lemma rnd_zero [simp]: "rnd 0 = 0"
  by (simp add: rnd_def)

lemma rnd_bounds:
  "rnd z \<le> 2 powi (quantum z + 53)" "- (2 powi (quantum z + 53)) \<le> rnd z"
proof -
  have up: "z \<le> 2 powi (quantum z + 53)" and lo: "- (2 powi (quantum z + 53)) \<le> z"
    using quantum_upper [of z] by (simp_all add: abs_less_iff)
  have "rnd z \<le> round_to (quantum z) (2 powi (quantum z + 53))"
    unfolding rnd_def by (rule round_to_mono [OF up])
  then show "rnd z \<le> 2 powi (quantum z + 53)" by (simp add: round_to_pow2)
  have "round_to (quantum z) (- (2 powi (quantum z + 53))) \<le> rnd z"
    unfolding rnd_def by (rule round_to_mono [OF lo])
  then show "- (2 powi (quantum z + 53)) \<le> rnd z" by (simp add: round_to_neg_pow2)
qed

lemma rnd_idem: "rnd (rnd z) = rnd z"
proof -
  define q where "q = quantum z"
  define k where "k = round_half_even (z / 2 powi q)"
  have rz: "rnd z = of_int k * 2 powi q" by (simp add: rnd_def round_to_def q_def k_def)
  have q: "- 1074 \<le> q" unfolding q_def by (rule quantum_ge)
  have p: "(2::real) powi (q + 53) = 2 ^ 53 * 2 powi q" by (simp add: power_int_add)
  have "of_int k * (2::real) powi q \<le> 2 ^ 53 * 2 powi q"
    "- (2 ^ 53) * (2::real) powi q \<le> of_int k * 2 powi q"
    using rnd_bounds [of z] unfolding rz q_def [symmetric] p by simp_all
  then have "(of_int k :: real) \<le> 2 ^ 53" "- (2 ^ 53) \<le> (of_int k :: real)"
    by (simp_all only: mult_le_cancel_right) (simp_all add: not_less [symmetric])
  then have "(of_int k :: real) \<le> of_int (2 ^ 53)" "of_int (- (2 ^ 53)) \<le> (of_int k :: real)"
    by simp_all
  then have kb: "k \<le> 2 ^ 53" "- (2 ^ 53) \<le> k" by (simp_all only: of_int_le_iff)
  consider "\<bar>k\<bar> < 2 ^ 53" | "k = 2 ^ 53" | "k = - (2 ^ 53)" using kb by linarith
  then show ?thesis
  proof cases
    case 1
    then show ?thesis unfolding rz using q by (rule rnd_exact)
  next
    case 2
    then have "rnd z = of_int 1 * 2 powi (q + 53)" by (simp add: rz power_int_add)
    moreover have "rnd (of_int 1 * 2 powi (q + 53)) = of_int 1 * 2 powi (q + 53)"
      using q by (intro rnd_exact) simp_all
    ultimately show ?thesis by simp
  next
    case 3
    then have "rnd z = of_int (- 1) * 2 powi (q + 53)" by (simp add: rz power_int_add)
    moreover have "rnd (of_int (- 1) * 2 powi (q + 53)) = of_int (- 1) * 2 powi (q + 53)"
      using q by (intro rnd_exact) simp_all
    ultimately show ?thesis by simp
  qed
qed

lemma rnd64_idem: "rnd64 z = Finite x \<Longrightarrow> rnd64 x = Finite x"
  by (auto simp: rnd64_rnd rnd_idem split: if_splits)

lemma rnd64_nonneg_cases: "0 \<le> x \<Longrightarrow> rnd64 x = PInf \<or> (\<exists>y. rnd64 x = Finite y \<and> 0 \<le> y)"
  using rnd_nonneg [of x] by (auto simp: rnd64_rnd)

lemma py_round_mono: "fgt v thr \<Longrightarrow> fge (py_round v n) (py_round thr n)"
proof (cases v; cases thr)
  fix x y assume v: "v = Finite x" and t: "thr = Finite y" and "fgt v thr"
  then have "y \<le> x" by simp
  then have "round_half_even (y * 10 ^ n) \<le> round_half_even (x * 10 ^ n)"
    by (intro round_half_even_mono mult_right_mono) simp_all
  then have "(of_int (round_half_even (y * 10 ^ n)) :: real) / 10 ^ n
      \<le> of_int (round_half_even (x * 10 ^ n)) / 10 ^ n"
    by (intro divide_right_mono) simp_all
  then show ?thesis unfolding v t py_round.simps by (rule rnd64_mono)
next
  fix x assume "v = Finite x" "thr = NInf"
  then show ?thesis by (cases "rnd64 (of_int (round_half_even (x * 10 ^ n)) / 10 ^ n)") simp_all
next
  fix y assume "v = PInf" "thr = Finite y"
  then show ?thesis by (cases "rnd64 (of_int (round_half_even (y * 10 ^ n)) / 10 ^ n)") simp_all
qed simp_all

lemma py_round_rounded: "rounded_to_decimals nd a (py_round a nd)"
proof (cases a)
  case (Finite x)
  show ?thesis
    unfolding Finite rounded_to_decimals_def float.case py_round.simps
  proof (intro bexI [of _ "round_half_even (x * 10 ^ nd)"] conjI impI)
    show "\<bar>of_int (round_half_even (x * 10 ^ nd)) - x * 10 ^ nd\<bar> \<le> 1 / 2"
      by (rule round_half_even_close)
    show "even (round_half_even (x * 10 ^ nd))"
      if "\<bar>of_int (round_half_even (x * 10 ^ nd)) - x * 10 ^ nd\<bar> = 1 / 2"
      using that by (rule round_half_even_tie)
    show "round_half_even (x * 10 ^ nd) \<in> {\<lfloor>x * 10 ^ nd\<rfloor>, \<lfloor>x * 10 ^ nd\<rfloor> + 1}"
      by (simp add: round_half_even_def Let_def)
  qed (rule refl)
qed (simp_all add: rounded_to_decimals_def)

lemma rounded_to_decimals_nearest:
  "rounded_to_decimals nd (Finite x) b \<longleftrightarrow>
     (\<exists>k :: int. \<bar>of_int k - x * 10 ^ nd\<bar> \<le> 1 / 2 \<and>
        (\<bar>of_int k - x * 10 ^ nd\<bar> = 1 / 2 \<longrightarrow> even k) \<and>
        b = rnd64 (of_int k / 10 ^ nd))"
proof
  assume "rounded_to_decimals nd (Finite x) b"
  then show "\<exists>k :: int. \<bar>of_int k - x * 10 ^ nd\<bar> \<le> 1 / 2 \<and>
        (\<bar>of_int k - x * 10 ^ nd\<bar> = 1 / 2 \<longrightarrow> even k) \<and>
        b = rnd64 (of_int k / 10 ^ nd)"
    unfolding rounded_to_decimals_def float.case by blast
next
  assume "\<exists>k :: int. \<bar>of_int k - x * 10 ^ nd\<bar> \<le> 1 / 2 \<and>
        (\<bar>of_int k - x * 10 ^ nd\<bar> = 1 / 2 \<longrightarrow> even k) \<and>
        b = rnd64 (of_int k / 10 ^ nd)"
  then obtain k :: int where k: "\<bar>of_int k - x * 10 ^ nd\<bar> \<le> 1 / 2"
    "\<bar>of_int k - x * 10 ^ nd\<bar> = 1 / 2 \<longrightarrow> even k" "b = rnd64 (of_int k / 10 ^ nd)"
    by blast
  have "k = \<lfloor>x * 10 ^ nd\<rfloor> \<or> k = \<lfloor>x * 10 ^ nd\<rfloor> + 1" using k(1) by linarith
  then have "k \<in> {\<lfloor>x * 10 ^ nd\<rfloor>, \<lfloor>x * 10 ^ nd\<rfloor> + 1}" by blast
  with k show "rounded_to_decimals nd (Finite x) b"
    unfolding rounded_to_decimals_def float.case by blast
qed

subsection \<open>The statistics: which exceptions, and which numbers\<close>

text \<open>
  The sum of squares is a non-negative float, so \<^verbatim>\<open>math.sqrt\<close> never raises; the
  divisor is positive, so the divisions never raise. The only exception of \<^verbatim>\<open>check\<close>
  is the \<^verbatim>\<open>OverflowError\<close> of a square.
\<close>

lemma fadd_NaN_right [simp]: "fadd a NaN = NaN"
  by (cases a) simp_all

lemma fmul_NaN_right [simp]: "fmul a NaN = NaN"
  by (cases a) simp_all

lemma rnd64_fnonneg: "0 \<le> x \<Longrightarrow> fnonneg (rnd64 x)"
  using rnd64_nonneg_cases [of x] by auto

lemma py_div_pos: "0 < n \<Longrightarrow> py_div a n = Inr (fdivn a n)"
  by (cases a; cases n) simp_all

lemma fdivn_fnonneg: "fnonneg a \<Longrightarrow> fnonneg (fdivn a n)"
  by (cases a) (simp_all add: rnd64_fnonneg)

lemma fadd_fnonneg: "fnonneg a \<Longrightarrow> fnonneg b \<Longrightarrow> fnonneg (fadd a b)"
  by (cases a; cases b) (simp_all add: rnd64_fnonneg)

lemma py_pow2_Inr:
  assumes "py_pow2 a = Inr s"
  shows "s = fmul a a" and "fnonneg s"
proof -
  have "s = fmul a a \<and> fnonneg s"
  proof (cases a)
    case (Finite x)
    have nn: "fnonneg (rnd64 (x * x))" by (rule rnd64_fnonneg) simp
    show ?thesis
      using assms nn unfolding Finite by (cases "rnd64 (x * x)") simp_all
  qed (use assms in auto)
  then show "s = fmul a a" and "fnonneg s" by blast+
qed

lemma py_pow2_Inl: "py_pow2 a = Inl e \<Longrightarrow> e = OverflowError"
  by (cases a) (auto split: float.splits)

lemma sum_squares_Inr:
  assumes "sum_squares mean vs acc = Inr ssq" and "fnonneg acc"
  shows "ssq = foldl fadd acc (map (\<lambda>v. fmul (fsub v mean) (fsub v mean)) vs)"
    and "fnonneg ssq"
proof -
  have "ssq = foldl fadd acc (map (\<lambda>v. fmul (fsub v mean) (fsub v mean)) vs) \<and> fnonneg ssq"
    using assms
  proof (induction vs arbitrary: acc)
    case Nil
    then show ?case by simp
  next
    case (Cons v vs)
    from Cons.prems(1) obtain sq where sq: "py_pow2 (fsub v mean) = Inr sq"
      and rest: "sum_squares mean vs (fadd acc sq) = Inr ssq"
      by (auto split: sum.splits)
    note eq = py_pow2_Inr(1) [OF sq] and nn = py_pow2_Inr(2) [OF sq]
    from Cons.IH [OF rest fadd_fnonneg [OF Cons.prems(2) nn]] show ?case
      unfolding eq by auto
  qed
  then show "ssq = foldl fadd acc (map (\<lambda>v. fmul (fsub v mean) (fsub v mean)) vs)"
    and "fnonneg ssq" by blast+
qed

lemma sum_squares_Inl: "sum_squares mean vs acc = Inl e \<Longrightarrow> e = OverflowError"
  by (induction vs arbitrary: acc) (auto split: sum.splits dest: py_pow2_Inl)

lemma math_sqrt_fnonneg: "fnonneg a \<Longrightarrow> math_sqrt a = Inr (fsqrt a)"
  by (cases a) simp_all

lemma check_stats_unfold:
  assumes "series \<noteq> []"
  shows "check_stats self series =
     (case sum_squares (spec_mean (map snd series)) (map snd series) (Finite 0) of
        Inl e \<Rightarrow> Inl e
      | Inr ssq \<Rightarrow>
          (case math_sqrt (fdivn ssq (length series)) of
             Inl e \<Rightarrow> Inl e
           | Inr std \<Rightarrow>
               Inr (spec_mean (map snd series), fdivn ssq (length series), std,
                    fadd (spec_mean (map snd series)) (fmul (threshold_multiplier self) std))))"
proof -
  have n: "0 < length series" using assms by simp
  show ?thesis
    by (simp add: check_stats_def py_div_pos [OF n] spec_mean_def py_sum_def Let_def
        split: sum.splits)
qed


lemma check_stats_Inl:
  assumes "series \<noteq> []" and "check_stats self series = Inl e"
  shows "e = OverflowError"
proof (cases "sum_squares (spec_mean (map snd series)) (map snd series) (Finite 0)")
  case (Inl e')
  with assms(2) have "e = e'" unfolding check_stats_unfold [OF assms(1)] by simp
  with sum_squares_Inl [OF Inl] show ?thesis by simp
next
  case (Inr ssq)
  have nn: "fnonneg ssq" by (rule sum_squares_Inr(2) [OF Inr]) simp
  have s: "math_sqrt (fdivn ssq (length series)) = Inr (fsqrt (fdivn ssq (length series)))"
    by (rule math_sqrt_fnonneg [OF fdivn_fnonneg [OF nn]])
  from assms(2) show ?thesis unfolding check_stats_unfold [OF assms(1)] by (simp add: Inr s)
qed

lemma check_raises_only_overflow:
  assumes "check self name series = Inl e"
  shows "e = OverflowError"
proof -
  from assms have len: "\<not> length series < 2" by (auto simp: check_def split: if_splits)
  then have ne: "series \<noteq> []" by auto
  from assms len have "check_stats self series = Inl e"
    by (auto simp: check_def split: sum.splits)
  then show ?thesis by (rule check_stats_Inl [OF ne])
qed

subsection \<open>Deviations of a constant series\<close>

lemma sum_squares_zero_dev:
  assumes "\<forall>v \<in> set vs. fsub v mean = Finite 0"
  shows "sum_squares mean vs (Finite 0) = Inr (Finite 0)"
  using assms by (induction vs) simp_all

lemma sum_squares_nan_acc:
  "\<forall>v \<in> set vs. fsub v mean = NaN \<Longrightarrow> sum_squares mean vs NaN = Inr NaN"
  by (induction vs) simp_all

lemma sum_squares_nan_dev:
  assumes "\<forall>v \<in> set vs. fsub v mean = NaN" "vs \<noteq> []"
  shows "sum_squares mean vs (Finite 0) = Inr NaN"
proof -
  from assms obtain v vs' where vs: "vs = v # vs'" by (cases vs) auto
  with assms show ?thesis using sum_squares_nan_acc [of vs' mean] by simp
qed

subsection \<open>Runs on concrete series\<close>

text \<open>Nine points at 0 and one at 100, default configuration: threshold 85, one record.\<close>

lemma spike_stats:
  "check_stats default_trigger
     [(0, Finite 0), (60, Finite 0), (120, Finite 0), (180, Finite 0), (240, Finite 0),
      (300, Finite 0), (360, Finite 0), (420, Finite 0), (480, Finite 0), (540, Finite 100)] =
   Inr (Finite 10, Finite 900, Finite 30, Finite 85)"
  by (simp add: check_stats_def py_sum_def fsub_def)

lemma spike_run:
  "check default_trigger ''cpu_usage''
     [(0, Finite 0), (60, Finite 0), (120, Finite 0), (180, Finite 0), (240, Finite 0),
      (300, Finite 0), (360, Finite 0), (420, Finite 0), (480, Finite 0), (540, Finite 100)] =
   Inr [\<lparr>metric_name = ''cpu_usage'', value = Finite 100, threshold = Finite 85,
         timestamp = 540, window_seconds = 300\<rparr>]"
  by (simp add: check_def spike_stats round_half_even_def)

text \<open>
  Two points at 0 and two at 100, given with descending timestamps, multiplier 1/2:
  threshold 75, two records.
\<close>

lemma two_spikes_stats:
  "check_stats sensitive_trigger
     [(180, Finite 100), (120, Finite 0), (60, Finite 0), (0, Finite 100)] =
   Inr (Finite 50, Finite 2500, Finite 50, Finite 75)"
  by (simp add: check_stats_def py_sum_def fsub_def)

lemma two_spikes_run:
  "check sensitive_trigger ''error_rate''
     [(180, Finite 100), (120, Finite 0), (60, Finite 0), (0, Finite 100)] =
   Inr [\<lparr>metric_name = ''error_rate'', value = Finite 100, threshold = Finite 75,
         timestamp = 180, window_seconds = 300\<rparr>,
        \<lparr>metric_name = ''error_rate'', value = Finite 100, threshold = Finite 75,
         timestamp = 0, window_seconds = 300\<rparr>]"
  by (simp add: check_def two_spikes_stats round_half_even_def)

text \<open>
  Two points, 0 and 1/32768, multiplier 1/2: mean 1/65536, standard deviation 1/65536,
  threshold 3/131072. All of these are binary fractions and need no rounding.
\<close>

lemmas tiny_values =
  rnd64_dyadic [of 1 15, simplified]
  rnd64_dyadic [of 1 16, simplified]
  rnd64_dyadic [of "- 1" 16, simplified]
  rnd64_dyadic [of 1 32, simplified]
  rnd64_dyadic [of 1 31, simplified]
  rnd64_dyadic [of 1 17, simplified]
  rnd64_dyadic [of 3 17, simplified]

lemma tiny_stats:
  "check_stats sensitive_trigger [(0, Finite 0), (60, Finite (1 / 32768))] =
     Inr (Finite (1 / 65536), Finite (1 / 4294967296), Finite (1 / 65536), Finite (3 / 131072))"
  by (simp add: check_stats_def py_sum_def fsub_def tiny_values real_sqrt_divide
      power2_eq_square)

lemma tiny_run:
  "check sensitive_trigger ''error_rate'' [(0, Finite 0), (60, Finite (1 / 32768))] =
     Inr [\<lparr>metric_name = ''error_rate'', value = Finite 0, threshold = Finite 0,
           timestamp = 60, window_seconds = 300\<rparr>]"
  by (simp add: check_def tiny_stats round_half_even_def)

text \<open>
  Two points at 0 and two at 7/128 = 0.0546875, multiplier 1/2: threshold
  21/512 = 0.041015625. The record holds the floats nearest to 0.0547 and to 0.0410.
\<close>

lemmas digits_values =
  rnd64_dyadic [of 7 7, simplified]
  rnd64_dyadic [of 7 6, simplified]
  rnd64_dyadic [of 7 8, simplified]
  rnd64_dyadic [of "- 7" 8, simplified]
  rnd64_dyadic [of 49 16, simplified]
  rnd64_dyadic [of 49 15, simplified]
  rnd64_dyadic [of 147 16, simplified]
  rnd64_dyadic [of 49 14, simplified]
  rnd64_dyadic [of 7 9, simplified]
  rnd64_dyadic [of 21 9, simplified]

lemma digits_stats:
  "check_stats sensitive_trigger
     [(0, Finite 0), (60, Finite 0), (120, Finite (7 / 128)), (180, Finite (7 / 128))] =
   Inr (Finite (7 / 256), Finite (49 / 65536), Finite (7 / 256), Finite (21 / 512))"
  by (simp add: check_stats_def py_sum_def fsub_def digits_values real_sqrt_divide
      power2_eq_square)

lemma digits_run:
  "check sensitive_trigger ''latency_p99''
     [(0, Finite 0), (60, Finite 0), (120, Finite (7 / 128)), (180, Finite (7 / 128))] =
   Inr [\<lparr>metric_name = ''latency_p99'', value = rnd64 (547 / 10000),
         threshold = rnd64 (41 / 1000), timestamp = 120, window_seconds = 300\<rparr>,
        \<lparr>metric_name = ''latency_p99'', value = rnd64 (547 / 10000),
         threshold = rnd64 (41 / 1000), timestamp = 180, window_seconds = 300\<rparr>]"
  by (simp add: check_def digits_stats round_half_even_def)

subsection \<open>A run in which the mean is rounded\<close>

text \<open>
  Rounding at a given spacing, for numbers that are not binary64 numbers. The first
  five facts compare \<open>rnd64\<close> with known binary64 values: 0.1, 1/3, the subnormal
  nearest to \<open>10 ^ -320\<close>, the largest float, and the least number that overflows.
\<close>

lemma rnd64_eval:
  assumes "- 1074 \<le> q" and "\<bar>x\<bar> < 2 powi (q + 53)"
    and "q = - 1074 \<or> 2 powi (q + 52) \<le> \<bar>x\<bar>"
    and "\<bar>round_to q x\<bar> < 2 ^ 1024"
  shows "rnd64 x = Finite (round_to q x)"
proof -
  have "quantum x = q" using assms(1-3) by (rule quantum_eqI)
  then show ?thesis using assms(4) by (simp add: rnd64_rnd rnd_def)
qed

lemma rnd64_tenth: "rnd64 (1 / 10) = Finite (3602879701896397 / 36028797018963968)"
  by (subst rnd64_eval [where q = "- 56"]) (simp_all add: round_to_def round_half_even_def)

lemma rnd64_third: "rnd64 (1 / 3) = Finite (6004799503160661 / 18014398509481984)"
  by (subst rnd64_eval [where q = "- 54"]) (simp_all add: round_to_def round_half_even_def)

lemma rnd64_subnormal: "rnd64 (1 / 10 ^ 320) = Finite (2024 * 2 powi (- 1074))"
  by (subst rnd64_eval [where q = "- 1074"]) (simp_all add: round_to_def round_half_even_def)

lemma rnd64_largest: "rnd64 (2 ^ 1024 - 2 ^ 971) = Finite (2 ^ 1024 - 2 ^ 971)"
  by (subst rnd64_eval [where q = "971"]) (simp_all add: round_to_def round_half_even_def)

lemma rnd64_overflows: "rnd64 (2 ^ 1024 - 2 ^ 970) = PInf"
proof -
  have "quantum (2 ^ 1024 - 2 ^ 970) = 971" by (rule quantum_eqI) simp_all
  then show ?thesis by (simp add: rnd64_def round_to_def round_half_even_def)
qed

text \<open>
  Three points of value \<open>1.75 + 6 / 2 ^ 52\<close> with multiplier 1/4. The sum of the three
  values lies half way between two floats and is rounded down; divided by 3 it gives
  \<open>1.75 + 5 / 2 ^ 52\<close>, one unit in the last place below the value. The deviations are
  \<open>1 / 2 ^ 52\<close>, and the mean plus a quarter of that is rounded back to the mean.
\<close>

lemma rounds_sum:
  "rnd64 (11821949021847561 / 2251799813685248) = Finite (1477743627730945 / 281474976710656)"
  by (subst rnd64_eval [where q = "- 50"])
     (simp_all add: round_to_def round_half_even_def)

lemma rounds_mean:
  "rnd64 (1477743627730945 / 844424930131968) = Finite (7881299347898373 / 4503599627370496)"
  by (subst rnd64_eval [where q = "- 52"])
     (simp_all add: round_to_def round_half_even_def)

lemma rounds_threshold:
  "rnd64 (31525197391593493 / 18014398509481984) = Finite (7881299347898373 / 4503599627370496)"
  by (subst rnd64_eval [where q = "- 52"])
     (simp_all add: round_to_def round_half_even_def)

lemmas ulp_values =
  rnd64_dyadic [of 3940649673949187 51, simplified]
  rnd64_dyadic [of 3940649673949187 50, simplified]
  rnd64_dyadic [of 1 52, simplified]
  rnd64_dyadic [of 1 104, simplified]
  rnd64_dyadic [of 1 103, simplified]
  rnd64_dyadic [of 3 104, simplified]
  rnd64_dyadic [of 1 54, simplified]
  rnd64_dyadic [of 7 2, simplified]

lemma sqrt_ulp: "sqrt (1 / 20282409603651670423947251286016) = 1 / 4503599627370496"
proof -
  have "sqrt ((1 / 4503599627370496)\<^sup>2) = 1 / 4503599627370496"
    by (subst real_sqrt_abs) simp
  then show ?thesis by (simp add: power2_eq_square)
qed

lemma ulp_sum:
  "py_sum [Finite (3940649673949187 / 2251799813685248),
           Finite (3940649673949187 / 2251799813685248),
           Finite (3940649673949187 / 2251799813685248)] =
   Finite (1477743627730945 / 281474976710656)"
  by (simp add: py_sum_def ulp_values rounds_sum)

lemma ulp_stats:
  "check_stats quarter_trigger
     [(0, Finite (3940649673949187 / 2251799813685248)),
      (60, Finite (3940649673949187 / 2251799813685248)),
      (120, Finite (3940649673949187 / 2251799813685248))] =
   Inr (Finite (7881299347898373 / 4503599627370496),
        Finite (1 / 20282409603651670423947251286016),
        Finite (1 / 4503599627370496),
        Finite (7881299347898373 / 4503599627370496))"
  by (simp add: check_stats_def py_sum_def fsub_def ulp_values rounds_sum rounds_mean
      rounds_threshold sqrt_ulp)

lemma ulp_run:
  "check quarter_trigger ''cpu_usage''
     [(0, Finite (3940649673949187 / 2251799813685248)),
      (60, Finite (3940649673949187 / 2251799813685248)),
      (120, Finite (3940649673949187 / 2251799813685248))] =
   Inr [\<lparr>metric_name = ''cpu_usage'', value = Finite (7 / 4), threshold = Finite (7 / 4),
         timestamp = 0, window_seconds = 300\<rparr>,
        \<lparr>metric_name = ''cpu_usage'', value = Finite (7 / 4), threshold = Finite (7 / 4),
         timestamp = 60, window_seconds = 300\<rparr>,
        \<lparr>metric_name = ''cpu_usage'', value = Finite (7 / 4), threshold = Finite (7 / 4),
         timestamp = 120, window_seconds = 300\<rparr>]"
  by (simp add: check_def ulp_stats round_half_even_def ulp_values)

subsection \<open>The call on the store\<close>

text \<open>
  When the result list is another object than the series and the detector, the loop
  returns within \<open>length s + 1\<close> rounds and has changed the result list only.
\<close>

lemma heap_loop_appends:
  assumes "series < length h" "anomalies < length h" "self < length h"
    and "series \<noteq> anomalies" "self \<noteq> anomalies"
    and "h ! series = SeriesObj s" "h ! self = TriggerObj cfg"
    and "h ! anomalies = AnomalyListObj acc"
    and "i \<le> length s" "length s - i < fuel"
  shows "heap_loop fuel h self name thr series anomalies i =
           Some (Inr (), h[anomalies := AnomalyListObj (check_loop cfg name thr (drop i s) acc)])"
  using assms
proof (induction fuel arbitrary: h i acc)
  case 0
  then show ?case by simp
next
  case (Suc fuel)
  have sa: "series_at h series = Some s" using Suc.prems by (simp add: series_at_def)
  have ta: "trigger_at h self = Some cfg" using Suc.prems by (simp add: trigger_at_def)
  have aa: "anomalies_at h anomalies = Some acc" using Suc.prems by (simp add: anomalies_at_def)
  show ?case
  proof (cases "i < length s")
    case False
    with Suc.prems have "drop i s = []" by simp
    moreover have "h[anomalies := AnomalyListObj acc] = h"
      using Suc.prems(8) by (metis list_update_id)
    ultimately show ?thesis using False by (simp add: sa)
  next
    case True
    obtain ts val where p: "s ! i = (ts, val)" by (cases "s ! i")
    have d: "drop i s = (ts, val) # drop (Suc i) s"
      using True p by (simp add: Cons_nth_drop_Suc [symmetric])
    have fuel: "length s - Suc i < fuel" using Suc.prems(10) True by simp
    have i': "Suc i \<le> length s" using True by simp
    show ?thesis
    proof (cases "fgt val thr")
      case False
      have "heap_loop fuel h self name thr series anomalies (Suc i) =
          Some (Inr (), h[anomalies := AnomalyListObj (check_loop cfg name thr (drop (Suc i) s) acc)])"
        by (rule Suc.IH [OF Suc.prems(1-8) i' fuel])
      then show ?thesis using True False by (simp add: sa p d)
    next
      case fg: True
      let ?r = "\<lparr>metric_name = name, value = py_round val 4, threshold = py_round thr 4,
                 timestamp = ts, window_seconds = WindowTrigger.window_seconds cfg\<rparr>"
      let ?h' = "h[anomalies := AnomalyListObj (acc @ [?r])]"
      have la: "list_append h anomalies ?r = Some ?h'" by (simp add: list_append_def aa)
      have "heap_loop fuel ?h' self name thr series anomalies (Suc i) =
          Some (Inr (), ?h'[anomalies :=
            AnomalyListObj (check_loop cfg name thr (drop (Suc i) s) (acc @ [?r]))])"
        using Suc.prems by (intro Suc.IH [OF _ _ _ _ _ _ _ _ i' fuel]) simp_all
      then show ?thesis using True fg by (simp add: sa ta p d la)
    qed
  qed
qed

lemma check_heap_result:
  assumes "self < length h" "series < length h"
    and "h ! self = TriggerObj cfg" "h ! series = SeriesObj s"
    and "length s < fuel"
  shows "check_heap fuel h self name series =
           Some (case check cfg name s of
                   Inl e \<Rightarrow> (Inl e, h @ [FloatListObj (map snd s)])
                 | Inr rs \<Rightarrow>
                     if length s < 2 then (Inr (length h), h @ [AnomalyListObj rs])
                     else (Inr (Suc (length h)),
                           h @ [FloatListObj (map snd s), AnomalyListObj rs]))"
proof -
  have sa: "series_at h series = Some s" using assms by (simp add: series_at_def)
  show ?thesis
  proof (cases "length s < 2")
    case True
    then show ?thesis by (simp add: check_heap_def sa alloc_def check_def)
  next
    case False
    let ?h1 = "h @ [FloatListObj (map snd s)]"
    have ta: "trigger_at ?h1 self = Some cfg"
      using assms by (simp add: trigger_at_def nth_append)
    show ?thesis
    proof (cases "check_stats cfg s")
      case (Inl e)
      then show ?thesis using False by (simp add: check_heap_def sa alloc_def ta check_def)
    next
      case (Inr st)
      obtain mean variance std thr where st: "st = (mean, variance, std, thr)"
        by (cases st) auto
      let ?h2 = "h @ [FloatListObj (map snd s), AnomalyListObj []]"
      let ?a = "Suc (length h)"
      have "heap_loop fuel ?h2 self name thr series ?a 0 =
          Some (Inr (), ?h2[?a := AnomalyListObj (check_loop cfg name thr (drop 0 s) [])])"
        using assms by (intro heap_loop_appends) (simp_all add: nth_append)
      moreover have "?h2[?a := AnomalyListObj rs] =
          h @ [FloatListObj (map snd s), AnomalyListObj rs]" for rs
        by (simp add: list_update_append)
      ultimately have loop: "heap_loop fuel ?h2 self name thr series ?a 0 =
          Some (Inr (), h @ [FloatListObj (map snd s),
                             AnomalyListObj (check_loop cfg name thr s [])])"
        by simp
      show ?thesis
        using False by (simp add: check_heap_def sa alloc_def ta Inr st check_def loop)
    qed
  qed
qed

subsection \<open>A run that raises OverflowError\<close>

text \<open>
  The two values 0 and \<open>2 ^ 520\<close>: the mean is \<open>2 ^ 519\<close>, and the square of the first
  deviation, \<open>2 ^ 1038\<close>, is beyond the largest float.
\<close>

lemma rnd64_pow2: "n \<le> 970 \<Longrightarrow> rnd64 (2 ^ n) = Finite (2 ^ n)"
  using rnd64_exact [of 1 "int n"] by simp

lemma rnd64_neg_pow2: "n \<le> 970 \<Longrightarrow> rnd64 (- (2 ^ n)) = Finite (- (2 ^ n))"
  using rnd64_exact [of "- 1" "int n"] by simp

lemma rnd64_pow2_overflow: "1024 \<le> n \<Longrightarrow> rnd64 (2 ^ n) = PInf"
proof -
  assume n: "1024 \<le> n"
  have "rnd (2 ^ n) = 2 ^ n" using rnd_exact [of 1 "int n"] by simp
  moreover have "(2::real) ^ 1024 \<le> 2 ^ n" using n by (intro power_increasing) simp_all
  ultimately show ?thesis unfolding rnd64_rnd by simp
qed

lemma overflow_mean:
  "py_div (py_sum [Finite 0, Finite (2 ^ 520)]) (Suc (Suc 0)) = Inr (Finite (2 ^ 519))"
proof -
  have c: "(2::real) ^ 520 / real (Suc (Suc 0)) = 2 ^ 519" by simp
  have "py_sum [Finite 0, Finite (2 ^ 520)] = rnd64 (2 ^ 520)"
    unfolding py_sum_def foldl.simps fadd.simps add_0 rnd64_zero ..
  also have "\<dots> = Finite (2 ^ 520)" by (rule rnd64_pow2) simp
  finally have s: "py_sum [Finite 0, Finite (2 ^ 520)] = Finite (2 ^ 520)" .
  have "py_div (Finite (2 ^ 520)) (Suc (Suc 0)) = Inr (rnd64 (2 ^ 520 / real (Suc (Suc 0))))"
    by (simp only: py_div.simps)
  also have "rnd64 (2 ^ 520 / real (Suc (Suc 0))) = Finite (2 ^ 519)"
    unfolding c by (rule rnd64_pow2) simp
  finally show ?thesis unfolding s .
qed

lemma overflow_square: "py_pow2 (fsub (Finite 0) (Finite (2 ^ 519))) = Inl OverflowError"
proof -
  have "fsub (Finite 0) (Finite (2 ^ 519)) = rnd64 (- (2 ^ 519))"
    unfolding fsub_def fneg.simps fadd.simps add_0 ..
  also have "\<dots> = Finite (- (2 ^ 519))" by (rule rnd64_neg_pow2) simp
  finally have d: "fsub (Finite 0) (Finite (2 ^ 519)) = Finite (- (2 ^ 519))" .
  have "(- (2 ^ 519)) * (- (2 ^ 519)) = (2::real) ^ (519 + 519)"
    unfolding power_add by simp
  then have sq: "(- (2 ^ 519)) * (- (2 ^ 519)) = (2::real) ^ 1038" by simp
  have "rnd64 ((- (2 ^ 519)) * (- (2 ^ 519))) = PInf"
    unfolding sq by (rule rnd64_pow2_overflow) simp
  then show ?thesis unfolding d py_pow2.simps by simp
qed

lemma overflow_run:
  "check default_trigger ''heap_usage_mb'' [(0, Finite 0), (60, Finite (2 ^ 520))] =
     Inl OverflowError"
proof -
  have l: "length [Finite 0, Finite (2 ^ 520)] = Suc (Suc 0)" by simp
  have v: "map snd [(0 :: datetime, Finite 0), (60, Finite (2 ^ 520))] =
      [Finite 0, Finite (2 ^ 520)]" by simp
  have "check_stats default_trigger [(0, Finite 0), (60, Finite (2 ^ 520))] = Inl OverflowError"
    unfolding check_stats_def Let_def v l overflow_mean
    by (simp only: sum.case sum_squares.simps overflow_square)
  moreover have "\<not> length [(0 :: datetime, Finite 0), (60, Finite (2 ^ 520))] < 2" by simp
  ultimately show ?thesis unfolding check_def by (simp only: if_False sum.case)
qed

subsection \<open>A second run in which the mean is rounded\<close>









section \<open>Construction\<close>

text \<open>
  C1 (as stated in the specification): constructing a detector fails whenever
  \<open>window_seconds < 1\<close> or \<open>threshold_multiplier \<le> 0\<close>. The constructor of the source
  validates nothing: at \<open>threshold_multiplier = 0\<close>, at \<open>threshold_multiplier = -1\<close> and at
  \<open>window_seconds = 0\<close> it returns a detector.
\<close>

theorem init_accepts_invalid_configuration:
  "WindowTrigger_init 300 (Finite 0) =
     Inr \<lparr>WindowTrigger.window_seconds = 300, threshold_multiplier = Finite 0\<rparr> \<and>
   WindowTrigger_init 300 (Finite (- 1)) =
     Inr \<lparr>WindowTrigger.window_seconds = 300, threshold_multiplier = Finite (- 1)\<rparr> \<and>
   WindowTrigger_init 0 (Finite (5 / 2)) =
     Inr \<lparr>WindowTrigger.window_seconds = 0, threshold_multiplier = Finite (5 / 2)\<rparr>"
  by (simp add: WindowTrigger_init_def)

text \<open>
  C1 (amended): constructing a detector never fails. For every \<open>window_seconds\<close> and every
  \<open>threshold_multiplier\<close>, \<^verbatim>\<open>__init__\<close> returns a detector that holds exactly these two
  values.
\<close>

theorem init_never_fails:
  "WindowTrigger_init ws tm =
     Inr \<lparr>WindowTrigger.window_seconds = ws, threshold_multiplier = tm\<rparr>"
  by (simp add: WindowTrigger_init_def)

section \<open>Short series\<close>

text \<open>
  C4: for every series with fewer than two points and every configuration, \<^verbatim>\<open>check\<close>
  returns the empty list and raises nothing.
\<close>

theorem check_short_series:
  "length series < 2 \<Longrightarrow> check self name series = Inr []"
  by (simp add: check_def)

theorem check_short_series_witness:
  "length ([] :: (datetime \<times> float) list) < 2 \<and>
   check default_trigger ''cpu_usage'' [] = Inr [] \<and>
   length [(0 :: datetime, Finite 500)] < 2 \<and>
   check default_trigger ''cpu_usage'' [(0, Finite 500)] = Inr []"
  using check_short_series [of "[]" default_trigger "''cpu_usage''"]
        check_short_series [of "[(0, Finite 500)]" default_trigger "''cpu_usage''"]
  by simp

section \<open>The threshold and the flagged points\<close>




text \<open>
  C6: for the five values 10, 10, 10, 10, 100 and the multiplier 2.5 (= 5/2), \<^verbatim>\<open>check\<close>
  computes mean 28, variance 1296, standard deviation 36 and threshold 118, and returns
  the empty list, since 100 is below 118. Every intermediate number of this run is an
  integer and is computed without rounding.
\<close>

theorem check_scenario_1:
  "check_stats \<lparr>WindowTrigger.window_seconds = ws, threshold_multiplier = Finite (5 / 2)\<rparr>
     [(t0, Finite 10), (t1, Finite 10), (t2, Finite 10), (t3, Finite 10), (t4, Finite 100)] =
   Inr (Finite 28, Finite 1296, Finite 36, Finite 118) \<and>
   (100 :: real) < 118 \<and>
   check \<lparr>WindowTrigger.window_seconds = ws, threshold_multiplier = Finite (5 / 2)\<rparr> name
     [(t0, Finite 10), (t1, Finite 10), (t2, Finite 10), (t3, Finite 10), (t4, Finite 100)] =
   Inr []"
proof -
  have stats:
    "check_stats \<lparr>WindowTrigger.window_seconds = ws, threshold_multiplier = Finite (5 / 2)\<rparr>
       [(t0, Finite 10), (t1, Finite 10), (t2, Finite 10), (t3, Finite 10), (t4, Finite 100)] =
     Inr (Finite 28, Finite 1296, Finite 36, Finite 118)"
    by (simp add: check_stats_def py_sum_def fsub_def)
  then show ?thesis by (simp add: check_def)
qed

section \<open>Constant series\<close>

text \<open>
  C5 (as stated in the specification): a series of at least two identical values gives
  the empty list. For three points of value \<open>1.75 + 6 / 2 ^ 52\<close> and the multiplier 1/4,
  the computed mean is one unit in the last place below the value, the threshold equals
  that mean, and all three points are returned.
\<close>

theorem check_flags_constant_series:
  "check quarter_trigger ''cpu_usage''
     [(0, Finite (3940649673949187 / 2251799813685248)),
      (60, Finite (3940649673949187 / 2251799813685248)),
      (120, Finite (3940649673949187 / 2251799813685248))] =
   Inr [\<lparr>metric_name = ''cpu_usage'', value = Finite (7 / 4), threshold = Finite (7 / 4),
         timestamp = 0, window_seconds = 300\<rparr>,
        \<lparr>metric_name = ''cpu_usage'', value = Finite (7 / 4), threshold = Finite (7 / 4),
         timestamp = 60, window_seconds = 300\<rparr>,
        \<lparr>metric_name = ''cpu_usage'', value = Finite (7 / 4), threshold = Finite (7 / 4),
         timestamp = 120, window_seconds = 300\<rparr>]"
  by (rule ulp_run)

text \<open>
  C5 (amended): for every series of length at least 2 in which all values are identical
  and for which the mean that \<^verbatim>\<open>check\<close> computes, \<^verbatim>\<open>sum(values) / n\<close>, equals that value,
  \<^verbatim>\<open>check\<close> returns the empty list: the deviations and the standard deviation are 0 (or
  not-a-number), and no value is strictly greater than the threshold.
\<close>

theorem check_constant_series:
  assumes "2 \<le> length series" and "\<forall>p \<in> set series. snd p = c"
    and "py_div (py_sum (map snd series)) (length series) = Inr c"
  shows "check self name series = Inr []"
proof -
  let ?vs = "map snd series"
  let ?n = "length series"
  from assms(1) have len: "\<not> length series < 2" and ne: "series \<noteq> []" and n: "0 < ?n"
    by auto
  have vs: "\<forall>v \<in> set ?vs. v = c" using assms(2) by auto
  have m: "spec_mean ?vs = c"
    using assms(3) by (simp add: py_div_pos [OF n] spec_mean_def py_sum_def)
  have "\<exists>mean variance std thr. check_stats self series = Inr (mean, variance, std, thr) \<and>
          \<not> fgt c thr"
  proof (cases c)
    case (Finite x)
    have d: "\<forall>v \<in> set ?vs. fsub v c = Finite 0" using vs by (simp add: fsub_def Finite)
    have "fdivn (foldl fadd (Finite 0) ?vs) ?n = Finite x"
      using m by (simp add: spec_mean_def Finite)
    then have rx: "rnd64 x = Finite x"
      by (cases "foldl fadd (Finite 0) ?vs") (auto dest: rnd64_idem)
    have thr: "\<not> fgt c (fadd c (fmul (threshold_multiplier self) (Finite 0)))"
      by (cases "threshold_multiplier self") (simp_all add: Finite rx inf_times_def)
    have ss: "sum_squares c ?vs (Finite 0) = Inr (Finite 0)"
      by (rule sum_squares_zero_dev [OF d])
    show ?thesis
      unfolding check_stats_unfold [OF ne] m ss using thr by simp
  next
    case PInf
    have d: "\<forall>v \<in> set ?vs. fsub v c = NaN" using vs by (simp add: fsub_def PInf)
    have ss: "sum_squares c ?vs (Finite 0) = Inr NaN"
      by (rule sum_squares_nan_dev [OF d]) (use ne in simp)
    show ?thesis
      unfolding check_stats_unfold [OF ne] m ss by (simp add: PInf)
  next
    case NInf
    have d: "\<forall>v \<in> set ?vs. fsub v c = NaN" using vs by (simp add: fsub_def NInf)
    have ss: "sum_squares c ?vs (Finite 0) = Inr NaN"
      by (rule sum_squares_nan_dev [OF d]) (use ne in simp)
    show ?thesis
      unfolding check_stats_unfold [OF ne] m ss by (simp add: NInf)
  next
    case NaN
    have d: "\<forall>v \<in> set ?vs. fsub v c = NaN" using vs by (simp add: fsub_def NaN)
    have ss: "sum_squares c ?vs (Finite 0) = Inr NaN"
      by (rule sum_squares_nan_dev [OF d]) (use ne in simp)
    show ?thesis
      unfolding check_stats_unfold [OF ne] m ss by (simp add: NaN)
  qed
  then obtain mean variance std thr where
    st: "check_stats self series = Inr (mean, variance, std, thr)" and nf: "\<not> fgt c thr"
    by blast
  have "filter (\<lambda>p. fgt (snd p) thr) series = []"
    using assms(2) nf by (simp add: filter_empty_conv)
  then show ?thesis using len st by (simp add: check_def check_loop_filter)
qed

theorem check_constant_series_witness:
  "2 \<le> length [(0 :: datetime, Finite 50), (60, Finite 50), (120, Finite 50)] \<and>
   list_all (\<lambda>p. snd p = Finite 50)
     [(0 :: datetime, Finite 50), (60, Finite 50), (120, Finite 50)] \<and>
   py_div (py_sum (map snd [(0 :: datetime, Finite 50), (60, Finite 50), (120, Finite 50)]))
     (length [(0 :: datetime, Finite 50), (60, Finite 50), (120, Finite 50)]) =
     Inr (Finite 50) \<and>
   check default_trigger ''cpu_usage'' [(0, Finite 50), (60, Finite 50), (120, Finite 50)] =
     Inr []"
  using check_constant_series
    [of "[(0, Finite 50), (60, Finite 50), (120, Finite 50)]" "Finite 50" default_trigger
        "''cpu_usage''"]
  by (simp add: py_sum_def)

section \<open>The stored value and the stored threshold\<close>

text \<open>
  C2 (as stated in the specification): every returned record has its stored \<open>value\<close>
  strictly greater than its stored \<open>threshold\<close>, also after rounding. For the series
  0, 1/32768 and the multiplier 1/2 the point 1/32768 lies above the threshold 3/131072
  and is flagged, and both numbers are stored as 0: the record's value is not greater
  than its threshold. (Every number of this run is a binary fraction and is computed
  without rounding.)
\<close>

theorem check_rounded_value_equals_threshold:
  "check sensitive_trigger ''error_rate'' [(0, Finite 0), (60, Finite (1 / 32768))] =
     Inr [\<lparr>metric_name = ''error_rate'', value = Finite 0, threshold = Finite 0,
           timestamp = 60, window_seconds = 300\<rparr>] \<and>
   \<not> fgt (value \<lparr>metric_name = ''error_rate'', value = Finite 0, threshold = Finite 0,
                  timestamp = 60, window_seconds = 300\<rparr>)
          (threshold \<lparr>metric_name = ''error_rate'', value = Finite 0, threshold = Finite 0,
                  timestamp = 60, window_seconds = 300\<rparr>)"
  by (simp add: tiny_run)

text \<open>
  C2 (amended): every returned record comes from a point of the series whose value,
  before rounding, is strictly greater than the threshold that the call computed, before
  rounding; the stored \<open>value\<close> is greater than or equal to the stored \<open>threshold\<close>.
\<close>

theorem check_value_ge_threshold:
  assumes "check self name series = Inr rs" and "r \<in> set rs"
  shows "fge (value r) (threshold r) \<and>
         (\<exists>p \<in> set series.
            fgt (snd p) (check_threshold self series) \<and>
            value r = py_round (snd p) 4 \<and>
            threshold r = py_round (check_threshold self series) 4)"
proof -
  let ?thr = "check_threshold self series"
  from check_cases [OF assms(1)] assms(2)
  obtain p where p: "p \<in> set series" "fgt (snd p) ?thr" "r = anomaly_record self name ?thr p"
    by auto
  from p(2) have "fge (py_round (snd p) 4) (py_round ?thr 4)" by (rule py_round_mono)
  with p show ?thesis by (auto simp: anomaly_record_def)
qed

theorem check_value_ge_threshold_witness:
  "check default_trigger ''cpu_usage''
     [(0, Finite 0), (60, Finite 0), (120, Finite 0), (180, Finite 0), (240, Finite 0),
      (300, Finite 0), (360, Finite 0), (420, Finite 0), (480, Finite 0), (540, Finite 100)] =
   Inr [\<lparr>metric_name = ''cpu_usage'', value = Finite 100, threshold = Finite 85,
         timestamp = 540, window_seconds = 300\<rparr>] \<and>
   check_threshold default_trigger
     [(0, Finite 0), (60, Finite 0), (120, Finite 0), (180, Finite 0), (240, Finite 0),
      (300, Finite 0), (360, Finite 0), (420, Finite 0), (480, Finite 0), (540, Finite 100)] =
   Finite 85 \<and>
   fge (value \<lparr>metric_name = ''cpu_usage'', value = Finite 100, threshold = Finite 85,
                timestamp = 540, window_seconds = 300\<rparr>)
       (threshold \<lparr>metric_name = ''cpu_usage'', value = Finite 100, threshold = Finite 85,
                timestamp = 540, window_seconds = 300\<rparr>)"
  using check_value_ge_threshold [OF spike_run,
    of "\<lparr>metric_name = ''cpu_usage'', value = Finite 100, threshold = Finite 85,
         timestamp = 540, window_seconds = 300\<rparr>"] spike_run spike_stats
  by (simp add: check_threshold_def round_half_even_def)

text \<open>
  C9: in every returned record, \<open>timestamp\<close> is the timestamp of a flagged point of the
  series, \<open>value\<close> is the value of that point rounded to 4 decimal digits, and
  \<open>threshold\<close> is the computed threshold rounded to 4 decimal digits. Rounded means: the
  float nearest to the nearest decimal with 4 digits, ties to the even last digit.
\<close>

theorem check_fields_rounded:
  assumes "check self name series = Inr rs" and "r \<in> set rs"
  shows "\<exists>p \<in> set series.
           fgt (snd p) (check_threshold self series) \<and>
           timestamp r = fst p \<and>
           rounded_to_decimals 4 (snd p) (value r) \<and>
           rounded_to_decimals 4 (check_threshold self series) (threshold r)"
proof -
  let ?thr = "check_threshold self series"
  from check_cases [OF assms(1)] assms(2)
  obtain p where p: "p \<in> set series" "fgt (snd p) ?thr" "r = anomaly_record self name ?thr p"
    by auto
  have "rounded_to_decimals 4 (snd p) (value r)" "rounded_to_decimals 4 ?thr (threshold r)"
    unfolding p(3) anomaly_record_def by (simp_all add: py_round_rounded)
  with p show ?thesis by (intro bexI [of _ p]) (simp_all add: anomaly_record_def)
qed

text \<open>
  In the witness the flagged value is 7/128 = 0.0546875, which is stored as the float
  nearest to 0.0547 (not 0.0546), and the threshold is 21/512 = 0.041015625, which is
  stored as the float nearest to 0.0410.
\<close>

theorem check_fields_rounded_witness:
  "check sensitive_trigger ''latency_p99''
     [(0, Finite 0), (60, Finite 0), (120, Finite (7 / 128)), (180, Finite (7 / 128))] =
   Inr [\<lparr>metric_name = ''latency_p99'', value = rnd64 (547 / 10000),
         threshold = rnd64 (41 / 1000), timestamp = 120, window_seconds = 300\<rparr>,
        \<lparr>metric_name = ''latency_p99'', value = rnd64 (547 / 10000),
         threshold = rnd64 (41 / 1000), timestamp = 180, window_seconds = 300\<rparr>] \<and>
   check_threshold sensitive_trigger
     [(0, Finite 0), (60, Finite 0), (120, Finite (7 / 128)), (180, Finite (7 / 128))] =
     Finite (21 / 512) \<and>
   (\<exists>p \<in> set [(0 :: datetime, Finite 0), (60, Finite 0), (120, Finite (7 / 128)),
               (180, Finite (7 / 128))].
      fgt (snd p) (Finite (21 / 512)) \<and>
      120 = fst p \<and>
      rounded_to_decimals 4 (snd p) (rnd64 (547 / 10000)) \<and>
      rounded_to_decimals 4 (Finite (21 / 512)) (rnd64 (41 / 1000)))"
proof -
  have thr: "check_threshold sensitive_trigger
     [(0, Finite 0), (60, Finite 0), (120, Finite (7 / 128)), (180, Finite (7 / 128))] =
     Finite (21 / 512)"
    by (simp add: check_threshold_def digits_stats)
  show ?thesis
    using check_fields_rounded [OF digits_run,
      of "\<lparr>metric_name = ''latency_p99'', value = rnd64 (547 / 10000),
           threshold = rnd64 (41 / 1000), timestamp = 120, window_seconds = 300\<rparr>"]
      digits_run
    unfolding thr by simp
qed

text \<open>
  C7: all records returned by one call of \<^verbatim>\<open>check\<close> carry the same \<open>threshold\<close>.
\<close>

theorem check_threshold_shared:
  assumes "check self name series = Inr rs" and "r1 \<in> set rs" and "r2 \<in> set rs"
  shows "threshold r1 = threshold r2"
  using check_cases [OF assms(1)] assms(2,3) by (auto simp: anomaly_record_def)

theorem check_threshold_shared_witness:
  "check sensitive_trigger ''error_rate''
     [(180, Finite 100), (120, Finite 0), (60, Finite 0), (0, Finite 100)] =
   Inr [\<lparr>metric_name = ''error_rate'', value = Finite 100, threshold = Finite 75,
         timestamp = 180, window_seconds = 300\<rparr>,
        \<lparr>metric_name = ''error_rate'', value = Finite 100, threshold = Finite 75,
         timestamp = 0, window_seconds = 300\<rparr>] \<and>
   threshold \<lparr>metric_name = ''error_rate'', value = Finite 100, threshold = Finite 75,
         timestamp = 180, window_seconds = 300\<rparr> =
   threshold \<lparr>metric_name = ''error_rate'', value = Finite 100, threshold = Finite 75,
         timestamp = 0, window_seconds = 300\<rparr>"
  using check_threshold_shared [OF two_spikes_run,
    of "\<lparr>metric_name = ''error_rate'', value = Finite 100, threshold = Finite 75,
         timestamp = 180, window_seconds = 300\<rparr>"
       "\<lparr>metric_name = ''error_rate'', value = Finite 100, threshold = Finite 75,
         timestamp = 0, window_seconds = 300\<rparr>"] two_spikes_run
  by simp

section \<open>Order of the output\<close>

text \<open>
  C8: the returned records are the points of the series that lie strictly above the
  threshold, taken in the order of the series (a series of fewer than two points has
  none); nothing is sorted, so a series that is not in timestamp order gives records
  that are not in timestamp order.
\<close>

theorem check_preserves_order:
  assumes "check self name series = Inr rs"
  shows "map (\<lambda>r. (timestamp r, value r)) rs =
         map (\<lambda>p. (fst p, py_round (snd p) 4))
           (filter (\<lambda>p. 2 \<le> length series \<and> fgt (snd p) (check_threshold self series))
              series)"
  using check_cases [OF assms] by (simp add: anomaly_record_def comp_def)

theorem check_preserves_order_witness:
  "check sensitive_trigger ''error_rate''
     [(180, Finite 100), (120, Finite 0), (60, Finite 0), (0, Finite 100)] =
   Inr [\<lparr>metric_name = ''error_rate'', value = Finite 100, threshold = Finite 75,
         timestamp = 180, window_seconds = 300\<rparr>,
        \<lparr>metric_name = ''error_rate'', value = Finite 100, threshold = Finite 75,
         timestamp = 0, window_seconds = 300\<rparr>] \<and>
   [(180, Finite 100), (0, Finite 100)] =
   map (\<lambda>p. (fst p, py_round (snd p) 4))
     (filter (\<lambda>p. 2 \<le> length [(180 :: datetime, Finite 100), (120, Finite 0), (60, Finite 0),
                     (0, Finite 100)] \<and>
                 fgt (snd p) (check_threshold sensitive_trigger
                   [(180, Finite 100), (120, Finite 0), (60, Finite 0), (0, Finite 100)]))
        [(180, Finite 100), (120, Finite 0), (60, Finite 0), (0, Finite 100)])"
  using check_preserves_order [OF two_spikes_run] two_spikes_run
  by (simp add: check_threshold_def two_spikes_stats round_half_even_def)

section \<open>Frame\<close>

text \<open>
  C10: a call of \<^verbatim>\<open>check\<close> on a store returns, and it leaves every object that existed
  before the call as it was, among them the series and the detector (its
  \<open>window_seconds\<close> and \<open>threshold_multiplier\<close>); what it returns is determined by the
  detector and the series alone, and a second call on the store left by the first
  returns the same output.
\<close>

theorem check_heap_frame:
  assumes "self < length h" "series < length h"
    and "h ! self = TriggerObj cfg" "h ! series = SeriesObj s"
    and "length s < fuel"
  shows "\<exists>out1 h1 out2 h2.
           check_heap fuel h self name series = Some (out1, h1) \<and>
           check_heap fuel h1 self name series = Some (out2, h2) \<and>
           take (length h) h1 = h \<and> take (length h1) h2 = h1 \<and>
           h1 ! self = TriggerObj cfg \<and> h1 ! series = SeriesObj s \<and>
           returned h1 out1 = check cfg name s \<and>
           returned h2 out2 = returned h1 out1"
proof -
  define res where "res h' = (case check cfg name s of
                   Inl e \<Rightarrow> (Inl e, h' @ [FloatListObj (map snd s)])
                 | Inr rs \<Rightarrow>
                     if length s < 2 then (Inr (length h'), h' @ [AnomalyListObj rs])
                     else (Inr (Suc (length h')),
                           h' @ [FloatListObj (map snd s), AnomalyListObj rs]))" for h' :: heap
  have first: "check_heap fuel h self name series = Some (res h)"
    unfolding res_def by (rule check_heap_result [OF assms])
  obtain out1 h1 where r1: "res h = (out1, h1)" by (cases "res h")
  have ext: "\<exists>tl. h1 = h @ tl" and ret1: "returned h1 out1 = check cfg name s"
    using r1 by (auto simp: res_def returned_def anomalies_at_def nth_append
        split: sum.splits if_splits)
  from ext obtain tl where h1: "h1 = h @ tl" ..
  have keep: "self < length h1" "series < length h1"
    "h1 ! self = TriggerObj cfg" "h1 ! series = SeriesObj s"
    using assms by (simp_all add: h1 nth_append)
  have second: "check_heap fuel h1 self name series = Some (res h1)"
    unfolding res_def by (rule check_heap_result [OF keep assms(5)])
  obtain out2 h2 where r2: "res h1 = (out2, h2)" by (cases "res h1")
  have ext2: "\<exists>tl. h2 = h1 @ tl" and ret2: "returned h2 out2 = check cfg name s"
    using r2 by (auto simp: res_def returned_def anomalies_at_def nth_append
        split: sum.splits if_splits)
  from ext2 obtain tl2 where h2: "h2 = h1 @ tl2" ..
  have f1: "check_heap fuel h self name series = Some (out1, h1)" using first r1 by simp
  have f2: "check_heap fuel h1 self name series = Some (out2, h2)" using second r2 by simp
  have t1: "take (length h) h1 = h" by (simp add: h1)
  have t2: "take (length h1) h2 = h1" by (simp add: h2)
  show ?thesis
    by (rule exI [of _ out1], rule exI [of _ h1], rule exI [of _ out2], rule exI [of _ h2])
       (simp add: f1 f2 t1 t2 keep ret1 ret2)
qed

theorem check_heap_frame_witness:
  "(0 :: nat) < length
     [TriggerObj sensitive_trigger,
      SeriesObj [(180, Finite 100), (120, Finite 0), (60, Finite 0), (0, Finite 100)]] \<and>
   (1 :: nat) < length
     [TriggerObj sensitive_trigger,
      SeriesObj [(180, Finite 100), (120, Finite 0), (60, Finite 0), (0, Finite 100)]] \<and>
   length [(180 :: datetime, Finite 100), (120, Finite 0), (60, Finite 0), (0, Finite 100)]
     < (5 :: nat) \<and>
   (\<exists>out1 h1 out2 h2.
      check_heap 5
        [TriggerObj sensitive_trigger,
         SeriesObj [(180, Finite 100), (120, Finite 0), (60, Finite 0), (0, Finite 100)]]
        0 ''error_rate'' 1 = Some (out1, h1) \<and>
      check_heap 5 h1 0 ''error_rate'' 1 = Some (out2, h2) \<and>
      take 2 h1 =
        [TriggerObj sensitive_trigger,
         SeriesObj [(180, Finite 100), (120, Finite 0), (60, Finite 0), (0, Finite 100)]] \<and>
      take (length h1) h2 = h1 \<and>
      returned h1 out1 =
        Inr [\<lparr>metric_name = ''error_rate'', value = Finite 100, threshold = Finite 75,
              timestamp = 180, window_seconds = 300\<rparr>,
             \<lparr>metric_name = ''error_rate'', value = Finite 100, threshold = Finite 75,
              timestamp = 0, window_seconds = 300\<rparr>] \<and>
      returned h2 out2 = returned h1 out1)"
proof -
  let ?S = "[(180 :: datetime, Finite 100), (120, Finite 0), (60, Finite 0), (0, Finite 100)]"
  let ?H = "[TriggerObj sensitive_trigger, SeriesObj ?S]"
  have a: "0 < length ?H" and b: "1 < length ?H"
    and c: "?H ! 0 = TriggerObj sensitive_trigger" and d: "?H ! 1 = SeriesObj ?S"
    and e: "length ?S < 5"
    by simp_all
  from check_heap_frame [OF a b c d e, of "''error_rate''"]
  obtain out1 h1 out2 h2 where
    f1: "check_heap 5 ?H 0 ''error_rate'' 1 = Some (out1, h1)" and
    f2: "check_heap 5 h1 0 ''error_rate'' 1 = Some (out2, h2)" and
    t1: "take (length ?H) h1 = ?H" and t2: "take (length h1) h2 = h1" and
    r1: "returned h1 out1 = check sensitive_trigger ''error_rate'' ?S" and
    r2: "returned h2 out2 = returned h1 out1"
    by blast
  have t1': "take 2 h1 = ?H" using t1 by (simp add: numeral_2_eq_2)
  have r1': "returned h1 out1 =
        Inr [\<lparr>metric_name = ''error_rate'', value = Finite 100, threshold = Finite 75,
              timestamp = 180, window_seconds = 300\<rparr>,
             \<lparr>metric_name = ''error_rate'', value = Finite 100, threshold = Finite 75,
              timestamp = 0, window_seconds = 300\<rparr>]"
    using r1 by (simp only: two_spikes_run)
  show ?thesis
    using a b e f1 f2 t1' t2 r1' r2 by blast
qed

end
